theory Spec2Isabelle
  imports Complex_Main
begin

section \<open>JavaScript numbers\<close>

text \<open>
  Every number of the component (\<open>progress\<close>, \<open>currentTime\<close>, \<open>duration\<close>,
  \<open>playbackRate\<close>, \<open>currentTrackIndex\<close>, the attributes of the video element) is a
  JavaScript Number, an IEEE 754 binary64 value. A finite value is modelled by the real
  number it denotes, next to the two infinities and NaN. The two zeros are identified:
  the only zero divisors that reach a division here are durations, widths and array
  lengths, which are never negative zero.

  Arithmetic is the exact operation on the reals followed by rounding to the nearest
  binary64 value, ties to even, as ECMAScript prescribes.
\<close>

datatype jsnum = Fin real | PInf | NInf | NaN

text \<open>
  \<open>expo x\<close> is the binary exponent of \<open>x\<close>, kept at the smallest exponent \<open>-1022\<close>
  of binary64 for subnormal values and zero: for \<open>2 powi (-1022) \<le> \<bar>x\<bar>\<close> it is the
  \<open>e\<close> with \<open>2 powi e \<le> \<bar>x\<bar> < 2 powi (e + 1)\<close>.
\<close>

function expo_up :: "real \<Rightarrow> int" where
  "expo_up a = (if a < 2 then 0 else expo_up (a / 2) + 1)"
  by pat_completeness auto
termination
proof (relation "measure (\<lambda>a. nat \<lfloor>a\<rfloor>)")
  show "wf (measure (\<lambda>a::real. nat \<lfloor>a\<rfloor>))" by simp
next
  fix a :: real
  assume a: "\<not> a < 2"
  then have "a / 2 \<le> a - 1" by simp
  then have "\<lfloor>a / 2\<rfloor> \<le> \<lfloor>a - 1\<rfloor>" by (rule floor_mono)
  moreover have "2 \<le> \<lfloor>a\<rfloor>" using a by (simp add: le_floor_iff)
  ultimately show "(a / 2, a) \<in> measure (\<lambda>a. nat \<lfloor>a\<rfloor>)" by simp
qed

function expo_down :: "real \<Rightarrow> int \<Rightarrow> int" where
  "expo_down a e = (if 1 \<le> a \<or> e \<le> - 1022 then e else expo_down (2 * a) (e - 1))"
  by pat_completeness auto
termination
  by (relation "measure (\<lambda>(a, e). nat (e + 1022))") simp_all

declare expo_up.simps [simp del] expo_down.simps [simp del]

definition expo :: "real \<Rightarrow> int" where
  "expo x = (if 1 \<le> \<bar>x\<bar> then expo_up \<bar>x\<bar> else expo_down \<bar>x\<bar> 0)"

text \<open>The distance between neighbouring binary64 values around \<open>x\<close> (53 significant bits).\<close>

definition ulp :: "real \<Rightarrow> real" where
  "ulp x = 2 powi (expo x - 52)"

text \<open>Rounding a real to the nearest integer, a tie going to the even neighbour.\<close>

definition rne :: "real \<Rightarrow> int" where
  "rne m = (let f = \<lfloor>m\<rfloor>; d = m - of_int f in
     if d < 1 / 2 then f else if 1 / 2 < d then f + 1 else if even f then f else f + 1)"

text \<open>
  Rounding to binary64: the nearest multiple of \<open>ulp x\<close>; magnitudes from
  \<open>2 ^ 1024 - 2 ^ 970\<close> on (half an ulp above the largest finite value) become infinite.
\<close>

definition round64 :: "real \<Rightarrow> jsnum" where
  "round64 x =
     (if 2 ^ 1024 - 2 ^ 970 \<le> \<bar>x\<bar> then (if 0 < x then PInf else NInf)
      else Fin (of_int (rne (x / ulp x)) * ulp x))"

text \<open>A real is a binary64 value when rounding leaves it alone.\<close>

definition is_double :: "real \<Rightarrow> bool" where
  "is_double x \<longleftrightarrow> round64 x = Fin x"

subsection \<open>The operators the component uses\<close>

text \<open>\<open>a + b\<close> (Number::add).\<close>

fun js_add :: "jsnum \<Rightarrow> jsnum \<Rightarrow> jsnum" where
  "js_add NaN b = NaN"
| "js_add a NaN = NaN"
| "js_add PInf NInf = NaN"
| "js_add NInf PInf = NaN"
| "js_add PInf b = PInf"
| "js_add NInf b = NInf"
| "js_add a PInf = PInf"
| "js_add a NInf = NInf"
| "js_add (Fin x) (Fin y) = round64 (x + y)"

text \<open>\<open>a - b\<close> (Number::subtract).\<close>

fun js_sub :: "jsnum \<Rightarrow> jsnum \<Rightarrow> jsnum" where
  "js_sub NaN b = NaN"
| "js_sub a NaN = NaN"
| "js_sub PInf PInf = NaN"
| "js_sub NInf NInf = NaN"
| "js_sub PInf b = PInf"
| "js_sub NInf b = NInf"
| "js_sub a PInf = NInf"
| "js_sub a NInf = PInf"
| "js_sub (Fin x) (Fin y) = round64 (x - y)"

text \<open>\<open>a * b\<close> (Number::multiply): zero times infinity is NaN.\<close>

fun js_mul :: "jsnum \<Rightarrow> jsnum \<Rightarrow> jsnum" where
  "js_mul NaN b = NaN"
| "js_mul a NaN = NaN"
| "js_mul PInf PInf = PInf"
| "js_mul PInf NInf = NInf"
| "js_mul NInf PInf = NInf"
| "js_mul NInf NInf = PInf"
| "js_mul PInf (Fin y) = (if y = 0 then NaN else if 0 < y then PInf else NInf)"
| "js_mul NInf (Fin y) = (if y = 0 then NaN else if 0 < y then NInf else PInf)"
| "js_mul (Fin x) PInf = (if x = 0 then NaN else if 0 < x then PInf else NInf)"
| "js_mul (Fin x) NInf = (if x = 0 then NaN else if 0 < x then NInf else PInf)"
| "js_mul (Fin x) (Fin y) = round64 (x * y)"

text \<open>
  \<open>a / b\<close> (Number::divide): nothing is raised on a zero divisor; zero by zero and
  infinity by infinity are NaN, any other value by zero is an infinity.
\<close>

fun js_div :: "jsnum \<Rightarrow> jsnum \<Rightarrow> jsnum" where
  "js_div NaN b = NaN"
| "js_div a NaN = NaN"
| "js_div PInf PInf = NaN"
| "js_div PInf NInf = NaN"
| "js_div NInf PInf = NaN"
| "js_div NInf NInf = NaN"
| "js_div PInf (Fin y) = (if 0 \<le> y then PInf else NInf)"
| "js_div NInf (Fin y) = (if 0 \<le> y then NInf else PInf)"
| "js_div (Fin x) PInf = Fin 0"
| "js_div (Fin x) NInf = Fin 0"
| "js_div (Fin x) (Fin y) =
     (if y = 0 then (if x = 0 then NaN else if 0 < x then PInf else NInf)
      else round64 (x / y))"

text \<open>
  \<open>a % b\<close> (Number::remainder): the remainder has the sign of the dividend, the quotient
  being truncated toward zero; it is NaN for an infinite dividend or a zero divisor. The
  remainder of two binary64 values is a binary64 value, so nothing is rounded.
\<close>

definition trunc :: "real \<Rightarrow> int" where
  "trunc z = (if 0 \<le> z then \<lfloor>z\<rfloor> else \<lceil>z\<rceil>)"

fun js_mod :: "jsnum \<Rightarrow> jsnum \<Rightarrow> jsnum" where
  "js_mod NaN b = NaN"
| "js_mod a NaN = NaN"
| "js_mod PInf b = NaN"
| "js_mod NInf b = NaN"
| "js_mod (Fin x) PInf = Fin x"
| "js_mod (Fin x) NInf = Fin x"
| "js_mod (Fin x) (Fin y) =
     (if y = 0 then NaN else Fin (x - y * of_int (trunc (x / y))))"

text \<open>\<open>a < b\<close>: false as soon as one side is NaN.\<close>

fun js_lt :: "jsnum \<Rightarrow> jsnum \<Rightarrow> bool" where
  "js_lt NaN b = False"
| "js_lt a NaN = False"
| "js_lt (Fin x) (Fin y) = (x < y)"
| "js_lt a NInf = False"
| "js_lt PInf b = False"
| "js_lt NInf b = True"
| "js_lt a PInf = True"

text \<open>\<open>Math.floor\<close>.\<close>

fun Math_floor :: "jsnum \<Rightarrow> jsnum" where
  "Math_floor (Fin x) = Fin (of_int \<lfloor>x\<rfloor>)"
| "Math_floor a = a"

subsection \<open>Numbers in template literals\<close>

text \<open>The decimal digits of a natural number, without padding.\<close>

definition digit_char :: "nat \<Rightarrow> char" where
  "digit_char d = ''0123456789'' ! d"

fun decimal :: "nat \<Rightarrow> string" where
  "decimal n = (if n < 10 then [digit_char n] else decimal (n div 10) @ [digit_char (n mod 10)])"

declare decimal.simps [simp del]

text \<open>
  Number::toString, as a template literal applies it. An integer of magnitude at most
  \<open>2 ^ 53\<close> is written with its decimal digits, NaN and the infinities by name. Every
  other value (a fraction, a larger integer) is written with the shortest digits that
  read back as the same binary64 value, possibly in exponent notation; that rendering is
  not modelled and is \<open>None\<close> here.
\<close>

fun ToString :: "jsnum \<Rightarrow> string option" where
  "ToString NaN = Some ''NaN''"
| "ToString PInf = Some ''Infinity''"
| "ToString NInf = Some ''-Infinity''"
| "ToString (Fin x) =
     (if of_int \<lfloor>x\<rfloor> = x \<and> \<bar>x\<bar> \<le> 2 ^ 53
      then Some ((if x < 0 then ''-'' else '''') @ decimal (nat \<bar>\<lfloor>x\<rfloor>\<bar>))
      else None)"

section \<open>The time readout\<close>

text \<open>
  \<^verbatim>\<open>const formatTime = (time: number) => {
    const minutes = Math.floor(time / 60);
    const seconds = Math.floor(time % 60);
    return `${minutes}:${seconds < 10 ? "0" : ""}${seconds}`;
  };\<close>
\<close>

definition formatTime :: "jsnum \<Rightarrow> string option" where
  "formatTime time =
     (let minutes = Math_floor (js_div time (Fin 60));
          seconds = Math_floor (js_mod time (Fin 60))
      in case (ToString minutes, ToString seconds) of
           (Some m, Some s) \<Rightarrow>
             Some (m @ '':'' @ (if js_lt seconds (Fin 10) then ''0'' else '''') @ s)
         | _ \<Rightarrow> None)"

text \<open>
  The readout of the controls, \<^verbatim>\<open>{formatTime(currentTime)} / {formatTime(duration)}\<close>,
  as the pair of its two parts.
\<close>

definition timeReadout :: "jsnum \<Rightarrow> jsnum \<Rightarrow> string option \<times> string option" where
  "timeReadout cur dur = (formatTime cur, formatTime dur)"

section \<open>The video element\<close>

text \<open>
  \<open>videoRef.current\<close> is the browser's video element. What the browser does with a command
  (decoding, seeking, clamping a position) is not the component's code: the model records
  the commands and assignments the component issues, oldest first, and keeps the list of
  \<open>loadeddata\<close> listeners, which the DOM determines. The two attributes the component reads,
  \<open>currentTime\<close> and \<open>duration\<close>, are set by the browser.

  A listener is the closure \<open>onLoadedData\<close> of one run of the effect: a function object
  with an identity of its own, which has captured the \<open>isPlaying\<close> of its render.
\<close>

record listener =
  lid :: nat
  captured_isPlaying :: bool

datatype call =
    Play
  | Pause
  | Load
  | SetSrc string
  | SetMuted bool
  | SetCurrentTime jsnum
  | SetPlaybackRate jsnum
  | AddEventListener listener
  | RemoveEventListener listener

record HTMLVideoElement =
  el_currentTime :: jsnum
  el_duration :: jsnum
  el_listeners :: "listener list"
  el_calls :: "call list"

definition issue :: "call \<Rightarrow> HTMLVideoElement \<Rightarrow> HTMLVideoElement" where
  "issue k v = v\<lparr>el_calls := el_calls v @ [k]\<rparr>"

text \<open>\<open>addEventListener\<close> does not register the same function twice.\<close>

definition addEventListener :: "listener \<Rightarrow> HTMLVideoElement \<Rightarrow> HTMLVideoElement" where
  "addEventListener l v =
     (issue (AddEventListener l) v)
       \<lparr>el_listeners := (if l \<in> set (el_listeners v) then el_listeners v
                         else el_listeners v @ [l])\<rparr>"

definition removeEventListener :: "listener \<Rightarrow> HTMLVideoElement \<Rightarrow> HTMLVideoElement" where
  "removeEventListener l v =
     (issue (RemoveEventListener l) v)
       \<lparr>el_listeners := filter (\<lambda>x. x \<noteq> l) (el_listeners v)\<rparr>"

text \<open>A video element as React creates it: no media, nothing registered.\<close>

definition new_video :: HTMLVideoElement where
  "new_video = \<lparr>el_currentTime = Fin 0, el_duration = NaN, el_listeners = [], el_calls = []\<rparr>"

section \<open>The component\<close>

record VideoTrack =
  title :: string
  src :: string

text \<open>
  A selected file, with the URL that \<open>URL.createObjectURL\<close> hands out for it.
\<close>

record File =
  name :: string
  objectURL :: string

text \<open>
  The eight \<open>useState\<close> cells. \<open>tracks_ref\<close> is the identity of the array held in
  \<open>tracks\<close>: React compares effect dependencies with \<open>Object.is\<close>, so a new array
  with the same tracks is a changed dependency.
\<close>

record player_state =
  isPlaying :: bool
  isMuted :: bool
  progress :: jsnum
  currentTime :: jsnum
  duration :: jsnum
  playbackRate :: jsnum
  tracks :: "VideoTrack list"
  tracks_ref :: nat
  currentTrackIndex :: jsnum

text \<open>
  The mounted component: its state, the ref, and what React remembers of the effect (the
  dependencies of its last run and the cleanup that run returned; the cleanup removes one
  listener, or is absent). \<open>next_lid\<close> numbers the closures.
\<close>

record component =
  state :: player_state
  videoRef :: "HTMLVideoElement option"
  effect_deps :: "(jsnum \<times> nat) option"
  effect_cleanup :: "listener option"
  next_lid :: nat

definition initial_state :: player_state where
  "initial_state =
     \<lparr>isPlaying = False, isMuted = False, progress = Fin 0, currentTime = Fin 0,
      duration = Fin 0, playbackRate = Fin 1, tracks = [], tracks_ref = 0,
      currentTrackIndex = Fin 0\<rparr>"

text \<open>
  \<open>tracks[currentTrackIndex]\<close>: \<open>undefined\<close> unless the index is an integer within the
  array.
\<close>

definition array_get :: "'a list \<Rightarrow> jsnum \<Rightarrow> 'a option" where
  "array_get xs i =
     (case i of
        Fin x \<Rightarrow>
          if 0 \<le> x \<and> of_int \<lfloor>x\<rfloor> = x \<and> nat \<lfloor>x\<rfloor> < length xs
          then Some (xs ! nat \<lfloor>x\<rfloor>) else None
      | _ \<Rightarrow> None)"

definition array_length :: "'a list \<Rightarrow> jsnum" where
  "array_length xs = Fin (of_nat (length xs))"

subsection \<open>Event handlers\<close>

text \<open>
  A handler is the closure of the latest render: it reads the state of the component as
  it is when the event arrives, and its \<open>set...\<close> calls give the next state.
\<close>

definition togglePlayPause :: "component \<Rightarrow> component" where
  "togglePlayPause c =
     (case videoRef c of
        None \<Rightarrow> c
      | Some v \<Rightarrow>
          c\<lparr>videoRef := Some (if isPlaying (state c) then issue Pause v else issue Play v),
            state := (state c)\<lparr>isPlaying := \<not> isPlaying (state c)\<rparr>\<rparr>)"

definition toggleMute :: "component \<Rightarrow> component" where
  "toggleMute c =
     (case videoRef c of
        None \<Rightarrow> c
      | Some v \<Rightarrow>
          c\<lparr>videoRef := Some (issue (SetMuted (\<not> isMuted (state c))) v),
            state := (state c)\<lparr>isMuted := \<not> isMuted (state c)\<rparr>\<rparr>)"

definition handleTimeUpdate :: "component \<Rightarrow> component" where
  "handleTimeUpdate c =
     (case videoRef c of
        None \<Rightarrow> c
      | Some v \<Rightarrow>
          (let current = el_currentTime v;
               duration = el_duration v
           in c\<lparr>state := (state c)
                  \<lparr>currentTime := current,
                   progress := js_mul (js_div current duration) (Fin 100)\<rparr>\<rparr>))"

definition handleLoadedMetadata :: "component \<Rightarrow> component" where
  "handleLoadedMetadata c =
     (case videoRef c of
        None \<Rightarrow> c
      | Some v \<Rightarrow> c\<lparr>state := (state c)\<lparr>duration := el_duration v\<rparr>\<rparr>)"

text \<open>The click carries \<open>e.clientX\<close> and the \<open>left\<close> and \<open>width\<close> of the bar's rectangle.\<close>

definition handleProgressClick :: "jsnum \<Rightarrow> jsnum \<Rightarrow> jsnum \<Rightarrow> component \<Rightarrow> component" where
  "handleProgressClick clientX rect_left rect_width c =
     (case videoRef c of
        None \<Rightarrow> c
      | Some v \<Rightarrow>
          (let clickX = js_sub clientX rect_left;
               newTime = js_mul (js_div clickX rect_width) (el_duration v)
           in c\<lparr>videoRef := Some (issue (SetCurrentTime newTime) v)\<rparr>))"

definition handlePlaybackRateChange :: "jsnum \<Rightarrow> component \<Rightarrow> component" where
  "handlePlaybackRateChange rate c =
     (case videoRef c of
        None \<Rightarrow> c
      | Some v \<Rightarrow>
          c\<lparr>videoRef := Some (issue (SetPlaybackRate rate) v),
            state := (state c)\<lparr>playbackRate := rate\<rparr>\<rparr>)"

text \<open>The two skip buttons: \<open>videoRef.current.currentTime -= 10\<close> and \<open>+= 10\<close>.\<close>

definition rewind :: "component \<Rightarrow> component" where
  "rewind c =
     (case videoRef c of
        None \<Rightarrow> c
      | Some v \<Rightarrow>
          c\<lparr>videoRef := Some (issue (SetCurrentTime (js_sub (el_currentTime v) (Fin 10))) v)\<rparr>)"

definition fastForward :: "component \<Rightarrow> component" where
  "fastForward c =
     (case videoRef c of
        None \<Rightarrow> c
      | Some v \<Rightarrow>
          c\<lparr>videoRef := Some (issue (SetCurrentTime (js_add (el_currentTime v) (Fin 10))) v)\<rparr>)"

definition newTrack :: "File \<Rightarrow> VideoTrack" where
  "newTrack file = \<lparr>title = name file, src = objectURL file\<rparr>"

text \<open>\<open>e.target.files\<close> is a list of files or \<open>null\<close>. The spread builds a new array.\<close>

definition handleFileUpload :: "File list option \<Rightarrow> component \<Rightarrow> component" where
  "handleFileUpload files c =
     (case files of
        None \<Rightarrow> c
      | Some fs \<Rightarrow>
          (let newTracks = map newTrack fs
           in c\<lparr>state := (state c)
                  \<lparr>tracks := tracks (state c) @ newTracks,
                   tracks_ref := tracks_ref (state c) + 1,
                   currentTrackIndex := Fin 0,
                   isPlaying := False,
                   progress := Fin 0,
                   currentTime := Fin 0\<rparr>\<rparr>))"

definition playNextTrack :: "component \<Rightarrow> component" where
  "playNextTrack c =
     c\<lparr>state := (state c)
         \<lparr>currentTrackIndex :=
            js_mod (js_add (currentTrackIndex (state c)) (Fin 1))
                   (array_length (tracks (state c)))\<rparr>\<rparr>"


subsection \<open>The effect on \<open>[currentTrackIndex, tracks]\<close>\<close>

text \<open>
  The body of the effect, run by React after a render whose dependencies changed. It reads
  the state of that render, so the listener it registers captures that render's
  \<open>isPlaying\<close>. The cleanup it returns removes this listener; without a video element or
  a current track it does nothing and returns no cleanup.
\<close>

definition track_effect :: "component \<Rightarrow> component" where
  "track_effect c =
     (case videoRef c of
        None \<Rightarrow> c\<lparr>effect_cleanup := None\<rparr>
      | Some v \<Rightarrow>
          (case array_get (tracks (state c)) (currentTrackIndex (state c)) of
             None \<Rightarrow> c\<lparr>effect_cleanup := None\<rparr>
           | Some track \<Rightarrow>
               (let onLoadedData =
                      \<lparr>lid = next_lid c, captured_isPlaying = isPlaying (state c)\<rparr>;
                    v1 = issue Pause v;
                    v2 = issue (SetSrc (src track)) v1;
                    v3 = issue Load v2;
                    v4 = addEventListener onLoadedData v3
                in c\<lparr>videoRef := Some v4,
                     state := (state c)
                       \<lparr>isPlaying := False, progress := Fin 0, currentTime := Fin 0\<rparr>,
                     effect_cleanup := Some onLoadedData,
                     next_lid := next_lid c + 1\<rparr>)))"

text \<open>The cleanup of the previous run: \<open>videoRef.current?.removeEventListener(...)\<close>.\<close>

definition run_cleanup :: "component \<Rightarrow> component" where
  "run_cleanup c =
     (case effect_cleanup c of
        None \<Rightarrow> c
      | Some l \<Rightarrow>
          (case videoRef c of
             None \<Rightarrow> c\<lparr>effect_cleanup := None\<rparr>
           | Some v \<Rightarrow> c\<lparr>videoRef := Some (removeEventListener l v), effect_cleanup := None\<rparr>))"

text \<open>
  What React does once a handler has returned: it renders the new state and, when
  \<open>currentTrackIndex\<close> or the \<open>tracks\<close> array is not the one of the effect's last run
  (\<open>Object.is\<close>, under which NaN equals NaN), runs the old cleanup and then the effect. The
  state the effect sets is rendered again with unchanged dependencies.
\<close>

definition commit :: "component \<Rightarrow> component" where
  "commit c =
     (let deps = (currentTrackIndex (state c), tracks_ref (state c))
      in if effect_deps c = Some deps then c
         else (track_effect (run_cleanup c))\<lparr>effect_deps := Some deps\<rparr>)"

text \<open>Mounting: the first render, then the first run of the effect.\<close>

definition mount :: "HTMLVideoElement option \<Rightarrow> component" where
  "mount ref =
     commit \<lparr>state = initial_state, videoRef = ref, effect_deps = None,
             effect_cleanup = None, next_lid = 0\<rparr>"

subsection \<open>Notifications of the video element\<close>

text \<open>
  The listener registered by the effect:
  \<^verbatim>\<open>const onLoadedData = () => { if (isPlaying) { videoRef.current?.play(); } };\<close>
\<close>

definition onLoadedData :: "listener \<Rightarrow> component \<Rightarrow> component" where
  "onLoadedData l c =
     (if captured_isPlaying l
      then (case videoRef c of None \<Rightarrow> c | Some v \<Rightarrow> c\<lparr>videoRef := Some (issue Play v)\<rparr>)
      else c)"

text \<open>The element fires \<open>loadeddata\<close>: every registered listener runs, in order.\<close>

definition fire_loadeddata :: "component \<Rightarrow> component" where
  "fire_loadeddata c =
     (case videoRef c of None \<Rightarrow> c | Some v \<Rightarrow> fold onLoadedData (el_listeners v) c)"

text \<open>The browser moves the playback position or learns the duration.\<close>

definition native_change :: "jsnum \<Rightarrow> jsnum \<Rightarrow> component \<Rightarrow> component" where
  "native_change t d c =
     (case videoRef c of
        None \<Rightarrow> c
      | Some v \<Rightarrow> c\<lparr>videoRef := Some (v\<lparr>el_currentTime := t, el_duration := d\<rparr>)\<rparr>)"

subsection \<open>The component as a transition system\<close>

datatype event =
    ClickPlayPause
  | ClickMute
  | TimeUpdate
  | LoadedMetadata
  | ClickProgress jsnum jsnum jsnum
  | ClickRate jsnum
  | ClickRewind
  | ClickForward
  | ClickNext
  | FileChange "File list option"
  | LoadedData
  | NativeChange jsnum jsnum

fun handle :: "event \<Rightarrow> component \<Rightarrow> component" where
  "handle ClickPlayPause c = togglePlayPause c"
| "handle ClickMute c = toggleMute c"
| "handle TimeUpdate c = handleTimeUpdate c"
| "handle LoadedMetadata c = handleLoadedMetadata c"
| "handle (ClickProgress clientX rect_left rect_width) c =
     handleProgressClick clientX rect_left rect_width c"
| "handle (ClickRate rate) c = handlePlaybackRateChange rate c"
| "handle ClickRewind c = rewind c"
| "handle ClickForward c = fastForward c"
| "handle ClickNext c = playNextTrack c"
| "handle (FileChange files) c = handleFileUpload files c"
| "handle LoadedData c = fire_loadeddata c"
| "handle (NativeChange t d) c = native_change t d c"

definition step :: "event \<Rightarrow> component \<Rightarrow> component" where
  "step ev c = commit (handle ev c)"

definition run :: "event list \<Rightarrow> component \<Rightarrow> component" where
  "run evs c = fold step evs c"

section \<open>Notions for the statements\<close>

text \<open>
  From the specification: \<open>formatTime\<close> renders \<open>M:SS\<close>, the minutes \<open>M = floor(s / 60)\<close>
  unpadded and the seconds \<open>SS = floor(s mod 60)\<close> as two digits.
\<close>

definition two_digits :: "nat \<Rightarrow> string" where
  "two_digits n = [digit_char (n div 10), digit_char (n mod 10)]"

definition spec_formatTime :: "real \<Rightarrow> string" where
  "spec_formatTime s =
     decimal (nat \<lfloor>s / 60\<rfloor>) @ '':'' @ two_digits (nat \<lfloor>s - 60 * of_int \<lfloor>s / 60\<rfloor>\<rfloor>)"

text \<open>\<open>Number.isFinite\<close>.\<close>

definition isFinite :: "jsnum \<Rightarrow> bool" where
  "isFinite a = (case a of Fin x \<Rightarrow> True | _ \<Rightarrow> False)"

text \<open>The \<open>loadeddata\<close> listeners registered on the component's element.\<close>

definition registered :: "component \<Rightarrow> listener list" where
  "registered c = (case videoRef c of None \<Rightarrow> [] | Some v \<Rightarrow> el_listeners v)"

text \<open>
  A component at rest, between two events: the effect has run for the current
  dependencies, and the listeners on the element are exactly what its cleanup will remove.
\<close>

definition at_rest :: "component \<Rightarrow> bool" where
  "at_rest c \<longleftrightarrow>
     effect_deps c = Some (currentTrackIndex (state c), tracks_ref (state c)) \<and>
     registered c = (case effect_cleanup c of None \<Rightarrow> [] | Some l \<Rightarrow> [l])"

section \<open>Sample inputs\<close>

text \<open>Three selected files, and a player that is playing the first of two tracks.\<close>

definition a_mp4 :: File where
  "a_mp4 = \<lparr>name = ''a.mp4'', objectURL = ''blob:a''\<rparr>"

definition b_mp4 :: File where
  "b_mp4 = \<lparr>name = ''b.mp4'', objectURL = ''blob:b''\<rparr>"

definition c_mp4 :: File where
  "c_mp4 = \<lparr>name = ''c.mp4'', objectURL = ''blob:c''\<rparr>"

definition playing_first_of_two :: component where
  "playing_first_of_two =
     run [FileChange (Some [a_mp4, b_mp4]), ClickPlayPause] (mount (Some new_video))"

text \<open>A player whose element reports the position 30 of a medium of 120 seconds.\<close>

definition quarter_played :: component where
  "quarter_played = native_change (Fin 30) (Fin 120) (mount (Some new_video))"

text \<open>A player that has stored the duration 120 of its medium.\<close>

definition two_minutes_loaded :: component where
  "two_minutes_loaded =
     run [NativeChange (Fin 0) (Fin 120), LoadedMetadata] (mount (Some new_video))"

section \<open>Binary64 rounding\<close>

lemma pow2_add: "(2::real) powi (m + n) = 2 powi m * 2 powi n"
  by (rule power_int_add) simp

lemma pow2_diff: "(2::real) powi (m - n) = 2 powi m / 2 powi n"
  by (rule power_int_diff) simp

lemma pow2_mono: "m \<le> n \<Longrightarrow> (2::real) powi m \<le> 2 powi n"
  by (rule power_int_increasing) simp_all

lemma expo_up_bounds:
  "1 \<le> a \<Longrightarrow> 0 \<le> expo_up a \<and> 2 powi expo_up a \<le> a \<and> a < 2 powi (expo_up a + 1)"
proof (induction a rule: expo_up.induct)
  case (1 a)
  show ?case
  proof (cases "a < 2")
    case True
    then have "expo_up a = 0" by (simp add: expo_up.simps)
    with True "1.prems" show ?thesis by simp
  next
    case False
    then have e: "expo_up a = expo_up (a / 2) + 1" by (subst expo_up.simps) simp
    from False have "1 \<le> a / 2" by simp
    with "1.IH" False have ih: "0 \<le> expo_up (a / 2)" "2 powi expo_up (a / 2) \<le> a / 2"
      "a / 2 < 2 powi (expo_up (a / 2) + 1)" by simp_all
    from ih show ?thesis unfolding e by (simp add: pow2_add)
  qed
qed

lemma expo_down_bounds:
  "- 1022 \<le> e \<Longrightarrow>
   - 1022 \<le> expo_down a e \<and> expo_down a e \<le> e \<and>
   (1 \<le> a * 2 powi (e - expo_down a e) \<or> expo_down a e = - 1022) \<and>
   (a < 1 \<longrightarrow> a * 2 powi (e - expo_down a e) < 2)"
proof (induction a e rule: expo_down.induct)
  case (1 a e)
  show ?case
  proof (cases "1 \<le> a \<or> e \<le> - 1022")
    case True
    then have "expo_down a e = e" by (simp add: expo_down.simps)
    with True "1.prems" show ?thesis by auto
  next
    case False
    then have e: "expo_down a e = expo_down (2 * a) (e - 1)" by (subst expo_down.simps) simp
    from False "1.prems" have "- 1022 \<le> e - 1" by simp
    with "1.IH" False have ih: "- 1022 \<le> expo_down (2 * a) (e - 1)"
      "expo_down (2 * a) (e - 1) \<le> e - 1"
      "1 \<le> 2 * a * 2 powi (e - 1 - expo_down (2 * a) (e - 1)) \<or> expo_down (2 * a) (e - 1) = - 1022"
      "2 * a < 1 \<longrightarrow> 2 * a * 2 powi (e - 1 - expo_down (2 * a) (e - 1)) < 2" by simp_all
    have p: "2 powi (e - expo_down (2 * a) (e - 1)) = (2::real) * 2 powi (e - 1 - expo_down (2 * a) (e - 1))"
      using pow2_add [of 1 "e - 1 - expo_down (2 * a) (e - 1)"] by (simp add: algebra_simps)
    have last: "a * 2 powi (e - expo_down (2 * a) (e - 1)) < 2"
    proof (cases "2 * a < 1")
      case True
      with ih(4) show ?thesis by (simp add: p)
    next
      case False
      then have "expo_down (2 * a) (e - 1) = e - 1" by (simp add: expo_down.simps)
      with \<open>\<not> (1 \<le> a \<or> e \<le> - 1022)\<close> show ?thesis by simp
    qed
    have q: "a * 2 powi (e - expo_down (2 * a) (e - 1)) = 2 * a * 2 powi (e - 1 - expo_down (2 * a) (e - 1))"
      by (simp add: p)
    from ih last show ?thesis unfolding e q by auto
  qed
qed

lemma expo_ge: "- 1022 \<le> expo x"
proof (cases "1 \<le> \<bar>x\<bar>")
  case True
  then show ?thesis using expo_up_bounds [of "\<bar>x\<bar>"] by (simp add: expo_def)
next
  case False
  then show ?thesis using expo_down_bounds [of 0 "\<bar>x\<bar>"] by (simp add: expo_def)
qed

lemma expo_upper: "\<bar>x\<bar> < 2 powi (expo x + 1)"
proof (cases "1 \<le> \<bar>x\<bar>")
  case True
  then show ?thesis using expo_up_bounds [of "\<bar>x\<bar>"] by (simp add: expo_def)
next
  case False
  then have "\<bar>x\<bar> * 2 powi (0 - expo x) < 2"
    using expo_down_bounds [of 0 "\<bar>x\<bar>"] by (simp add: expo_def)
  then have "\<bar>x\<bar> < 2 * 2 powi expo x"
    by (simp add: power_int_minus field_simps)
  then show ?thesis using pow2_add [of "expo x" 1] by simp
qed

lemma expo_lower: "2 powi (- 1022) \<le> \<bar>x\<bar> \<Longrightarrow> 2 powi expo x \<le> \<bar>x\<bar>"
proof (cases "1 \<le> \<bar>x\<bar>")
  case True
  then show ?thesis using expo_up_bounds [of "\<bar>x\<bar>"] by (simp add: expo_def)
next
  case False
  assume n: "2 powi (- 1022) \<le> \<bar>x\<bar>"
  from False have "1 \<le> \<bar>x\<bar> * 2 powi (0 - expo x) \<or> expo x = - 1022"
    using expo_down_bounds [of 0 "\<bar>x\<bar>"] by (simp add: expo_def)
  then show ?thesis
  proof
    assume "1 \<le> \<bar>x\<bar> * 2 powi (0 - expo x)"
    then show ?thesis by (simp add: power_int_minus field_simps)
  next
    assume "expo x = - 1022"
    with n show ?thesis by simp
  qed
qed

lemma expo_subnormal: "\<bar>x\<bar> < 2 powi (- 1022) \<Longrightarrow> expo x = - 1022"
proof (rule ccontr)
  assume s: "\<bar>x\<bar> < 2 powi (- 1022)" and ne: "expo x \<noteq> - 1022"
  from s have lt1: "\<not> 1 \<le> \<bar>x\<bar>"
    using pow2_mono [of "- 1022" 0] by simp
  with ne have "1 \<le> \<bar>x\<bar> * 2 powi (0 - expo x)"
    using expo_down_bounds [of 0 "\<bar>x\<bar>"] by (simp add: expo_def)
  then have "2 powi expo x \<le> \<bar>x\<bar>" by (simp add: power_int_minus field_simps)
  moreover have "2 powi (- 1022) \<le> (2::real) powi expo x"
    by (rule pow2_mono) (rule expo_ge)
  ultimately show False using s by simp
qed

lemma expo_le: "\<bar>x\<bar> < 2 powi (e + 1) \<Longrightarrow> - 1022 \<le> e \<Longrightarrow> expo x \<le> e"
proof (rule ccontr)
  assume a: "\<bar>x\<bar> < 2 powi (e + 1)" "- 1022 \<le> e" "\<not> expo x \<le> e"
  then have ne: "expo x \<noteq> - 1022" by simp
  have "2 powi (- 1022) \<le> \<bar>x\<bar>"
  proof (rule ccontr)
    assume "\<not> 2 powi (- 1022) \<le> \<bar>x\<bar>"
    then have "expo x = - 1022" by (simp add: expo_subnormal)
    with ne show False by simp
  qed
  then have "2 powi expo x \<le> \<bar>x\<bar>" by (rule expo_lower)
  moreover have "2 powi (e + 1) \<le> (2::real) powi expo x"
    by (rule pow2_mono) (use a in simp)
  ultimately show False using a(1) by simp
qed

lemma expo_ge_I: "2 powi e \<le> \<bar>x\<bar> \<Longrightarrow> e \<le> expo x"
proof (rule ccontr)
  assume a: "2 powi e \<le> \<bar>x\<bar>" "\<not> e \<le> expo x"
  then have "expo x + 1 \<le> e" by simp
  then have "2 powi (expo x + 1) \<le> (2::real) powi e" by (rule pow2_mono)
  with expo_upper [of x] a(1) show False by simp
qed


lemma rne_upper: "of_int (rne m) \<le> m + 1 / 2"
  unfolding rne_def Let_def by (simp; linarith)

lemma rne_lower: "m - 1 / 2 \<le> of_int (rne m)"
  unfolding rne_def Let_def by (simp; linarith)

lemma rne_of_int: "rne (of_int k) = k"
  by (simp add: rne_def)

lemma rne_ge_int: "of_int k \<le> m \<Longrightarrow> k \<le> rne m"
proof -
  assume "of_int k \<le> m"
  then have "k \<le> \<lfloor>m\<rfloor>" by (simp add: le_floor_iff)
  moreover have "\<lfloor>m\<rfloor> \<le> rne m" by (simp add: rne_def Let_def)
  ultimately show ?thesis by simp
qed

lemma rne_lt_int: "m + 1 / 2 < of_int k \<Longrightarrow> rne m < k"
proof -
  assume "m + 1 / 2 < of_int k"
  with rne_upper [of m] have "(of_int (rne m) :: real) < of_int k" by simp
  then show ?thesis by simp
qed

lemma ulp_pos: "0 < ulp x"
  by (simp add: ulp_def)

lemma ulp_normal: "2 powi (- 1022) \<le> \<bar>x\<bar> \<Longrightarrow> ulp x \<le> \<bar>x\<bar> / 2 ^ 52"
proof -
  assume "2 powi (- 1022) \<le> \<bar>x\<bar>"
  then have "2 powi expo x \<le> \<bar>x\<bar>" by (rule expo_lower)
  then show ?thesis by (simp add: ulp_def pow2_diff divide_right_mono)
qed

lemma ulp_subnormal: "\<bar>x\<bar> < 2 powi (- 1022) \<Longrightarrow> ulp x = 2 powi (- 1074)"
  by (simp add: ulp_def expo_subnormal)

lemma ulp_bound: "ulp x \<le> \<bar>x\<bar> / 2 ^ 52 + 2 powi (- 1074)"
proof (cases "2 powi (- 1022) \<le> \<bar>x\<bar>")
  case True
  then have "ulp x \<le> \<bar>x\<bar> / 2 ^ 52" by (rule ulp_normal)
  moreover have "(0::real) \<le> 2 powi (- 1074)" by simp
  ultimately show ?thesis by linarith
next
  case False
  then have "ulp x = 2 powi (- 1074)" by (simp add: ulp_subnormal)
  moreover have "0 \<le> \<bar>x\<bar> / 2 ^ 52" by simp
  ultimately show ?thesis by linarith
qed

lemma round64_Fin:
  "\<bar>x\<bar> < 2 ^ 1024 - 2 ^ 970 \<Longrightarrow> round64 x = Fin (of_int (rne (x / ulp x)) * ulp x)"
  by (simp add: round64_def)

lemma round64_err:
  assumes "\<bar>x\<bar> < 2 ^ 1024 - 2 ^ 970"
  shows "\<exists>r. round64 x = Fin r \<and> \<bar>r - x\<bar> \<le> ulp x / 2"
proof -
  let ?u = "ulp x"
  let ?n = "rne (x / ?u)"
  have u: "0 < ?u" by (rule ulp_pos)
  have "\<bar>of_int ?n - x / ?u\<bar> \<le> 1 / 2"
    using rne_upper [of "x / ?u"] rne_lower [of "x / ?u"] by linarith
  then have "\<bar>of_int ?n - x / ?u\<bar> * ?u \<le> 1 / 2 * ?u"
    using u by (intro mult_right_mono) simp_all
  moreover have "\<bar>of_int ?n - x / ?u\<bar> * ?u = \<bar>of_int ?n * ?u - x\<bar>"
  proof -
    have "\<bar>of_int ?n - x / ?u\<bar> * ?u = \<bar>(of_int ?n - x / ?u) * ?u\<bar>"
      using u by (simp add: abs_mult)
    also have "(of_int ?n - x / ?u) * ?u = of_int ?n * ?u - x"
      using u by (simp add: field_simps)
    finally show ?thesis .
  qed
  ultimately have "\<bar>of_int ?n * ?u - x\<bar> \<le> ?u / 2" by simp
  with assms show ?thesis by (simp add: round64_Fin)
qed

lemma ulp_inverse_pow:
  assumes "expo x \<le> 52"
  shows "ulp x = 1 / 2 ^ nat (52 - expo x)"
proof -
  have "ulp x = 2 powi (- (52 - expo x))" by (simp add: ulp_def)
  also have "\<dots> = 1 / 2 powi (52 - expo x)" by (rule power_int_minus_divide)
  also have "2 powi (52 - expo x) = (2::real) ^ nat (52 - expo x)"
    using assms by (simp add: power_int_nonneg_exp)
  finally show ?thesis .
qed

lemma round64_of_int:
  assumes "\<bar>k\<bar> < 2 ^ 53"
  shows "round64 (of_int k) = Fin (of_int k)"
proof -
  let ?x = "of_int k :: real"
  have "\<bar>?x\<bar> < 2 ^ 53" using assms by (simp flip: of_int_abs)
  then have small: "\<bar>?x\<bar> < 2 powi (52 + 1)" by simp
  then have "expo ?x \<le> 52" by (rule expo_le) simp
  then have u: "ulp ?x = 1 / 2 ^ nat (52 - expo ?x)" by (rule ulp_inverse_pow)
  have "?x / ulp ?x = of_int (k * 2 ^ nat (52 - expo ?x))" by (simp add: u)
  then have "rne (?x / ulp ?x) = k * 2 ^ nat (52 - expo ?x)" by (simp only: rne_of_int)
  then have "of_int (rne (?x / ulp ?x)) * ulp ?x = ?x" by (simp add: u)
  moreover have "\<bar>?x\<bar> < 2 ^ 1024 - 2 ^ 970"
    using \<open>\<bar>?x\<bar> < 2 ^ 53\<close> by simp
  ultimately show ?thesis by (simp add: round64_Fin)
qed

lemma is_double_multiple:
  assumes "is_double s"
  shows "\<exists>m::int. s = of_int m * ulp s"
proof -
  from assms have "of_int (rne (s / ulp s)) * ulp s = s"
    by (simp add: is_double_def round64_def split: if_splits)
  then show ?thesis by metis
qed


lemma half_ulp_below_next_minute:
  assumes d: "is_double s" and s0: "0 \<le> s" and sb: "s < 60 * 2 ^ 50"
  shows "ulp (s / 60) / 2 < of_int \<lfloor>s / 60\<rfloor> + 1 - s / 60"
proof (cases "s < 1")
  case True
  have "\<bar>s / 60\<bar> < 2 powi (0 + 1)" using True s0 by simp
  then have "expo (s / 60) \<le> 0" by (rule expo_le) simp
  then have "ulp (s / 60) \<le> 2 powi (- 52)"
    unfolding ulp_def by (intro pow2_mono) simp
  moreover have "0 \<le> \<lfloor>s / 60\<rfloor>" using s0 by simp
  then have "(0::real) \<le> of_int \<lfloor>s / 60\<rfloor>" by simp
  moreover have "s / 60 < 1 / 60" using True by simp
  moreover have "(2::real) powi (- 52) < 1" by (simp add: power_int_minus_divide)
  ultimately show ?thesis by linarith
next
  case False
  define es where "es = expo s"
  define k where "k = \<lfloor>s / 60\<rfloor>"
  define D where "D = 60 * (of_int k + 1) - s"
  from False have "2 powi 0 \<le> \<bar>s\<bar>" by simp
  then have es0: "0 \<le> es" unfolding es_def by (rule expo_ge_I)
  have "\<bar>s\<bar> < 2 powi (55 + 1)" using s0 sb by simp
  then have es55: "es \<le> 55" unfolding es_def by (rule expo_le) simp
  have us: "ulp s = 2 powi (es - 52)" by (simp add: ulp_def es_def)
  from d obtain m :: int where m: "s = of_int m * ulp s"
    using is_double_multiple by blast
  have "s / 60 < of_int k + 1" unfolding k_def by linarith
  then have Dpos: "0 < D" by (simp add: D_def)
  have upos: "0 < ulp s" by (rule ulp_pos)
  have "ulp (s / 60) / 2 < D / 60"
  proof (cases "es \<le> 54")
    case True
    \<comment> \<open>\<open>s\<close> and \<open>60 * (k + 1)\<close> are multiples of \<open>ulp s\<close>, which divides 4\<close>
    define M :: int where "M = 2 ^ nat (54 - es)"
    have "of_int M * ulp s = 2 powi (54 - es) * 2 powi (es - 52)"
      using True by (simp add: M_def us power_int_nonneg_exp)
    also have "\<dots> = 2 powi 2"
      using pow2_add [of "54 - es" "es - 52"] by simp
    finally have M4: "of_int M * ulp s = 4" by simp
    have "of_int (15 * (k + 1) * M - m) * ulp s
        = 15 * (of_int k + 1) * (of_int M * ulp s) - of_int m * ulp s"
      by (simp add: algebra_simps)
    also have "\<dots> = D" unfolding M4 D_def using m by simp
    finally have eq: "of_int (15 * (k + 1) * M - m) * ulp s = D" .
    from Dpos have "0 < of_int (15 * (k + 1) * M - m) * ulp s" by (simp only: eq)
    then have "0 < (of_int (15 * (k + 1) * M - m) :: real)"
      using upos by (rule zero_less_mult_pos2)
    then have "0 < 15 * (k + 1) * M - m" by (simp only: of_int_0_less_iff)
    then have "1 \<le> 15 * (k + 1) * M - m" by simp
    then have "(1::real) \<le> of_int (15 * (k + 1) * M - m)" by (simp only: of_int_1_le_iff)
    then have "1 * ulp s \<le> of_int (15 * (k + 1) * M - m) * ulp s"
      using upos by (intro mult_right_mono) simp_all
    then have DU: "ulp s \<le> D" unfolding eq by simp
    have "\<bar>s / 60\<bar> = s / 60" using s0 by simp
    also have "\<dots> < 2 powi (es + 1) / 60"
      using expo_upper [of s] s0 by (simp add: es_def)
    also have "\<dots> \<le> 2 powi (es + 1) / 32" by (simp add: field_simps)
    also have "\<dots> = 2 powi (es - 5 + 1)"
      using pow2_diff [of "es + 1" 5] by (simp add: algebra_simps)
    finally have "\<bar>s / 60\<bar> < 2 powi (es - 5 + 1)" .
    then have "expo (s / 60) \<le> es - 5" by (rule expo_le) (use es0 in simp)
    then have "ulp (s / 60) \<le> 2 powi (es - 5 - 52)"
      unfolding ulp_def by (intro pow2_mono) simp
    also have "\<dots> = ulp s / 32"
      using pow2_diff [of "es - 52" 5] by (simp add: us algebra_simps)
    finally have "ulp (s / 60) \<le> ulp s / 32" .
    with DU upos show ?thesis by simp
  next
    case False
    \<comment> \<open>\<open>ulp s = 8\<close>: \<open>s\<close> and \<open>60 * (k + 1)\<close> are still multiples of 4\<close>
    with es55 have "es = 55" by simp
    then have u8: "ulp s = 8" by (simp add: us)
    have "of_int (15 * (k + 1) - 2 * m) * 4 = 60 * (of_int k + 1) - of_int m * (8::real)"
      by (simp add: algebra_simps)
    also have "\<dots> = D" unfolding D_def using m u8 by simp
    finally have eq: "of_int (15 * (k + 1) - 2 * m) * 4 = D" .
    from Dpos have "0 < of_int (15 * (k + 1) - 2 * m) * (4::real)" by (simp only: eq)
    then have "0 < (of_int (15 * (k + 1) - 2 * m) :: real)"
      by (rule zero_less_mult_pos2) simp
    then have "0 < 15 * (k + 1) - 2 * m" by (simp only: of_int_0_less_iff)
    then have "1 \<le> 15 * (k + 1) - 2 * m" by simp
    then have "(1::real) \<le> of_int (15 * (k + 1) - 2 * m)" by (simp only: of_int_1_le_iff)
    then have D4: "4 \<le> D" unfolding eq [symmetric] by simp
    have "\<bar>s / 60\<bar> < 2 powi (49 + 1)" using s0 sb by simp
    then have "expo (s / 60) \<le> 49" by (rule expo_le) simp
    then have "ulp (s / 60) \<le> 2 powi (49 - 52)"
      unfolding ulp_def by (intro pow2_mono) simp
    also have "\<dots> = 1 / 8" by (simp add: power_int_minus_divide)
    finally have "ulp (s / 60) \<le> 1 / 8" .
    with D4 show ?thesis by simp
  qed
  then show ?thesis by (simp add: D_def k_def)
qed

lemma floor_round64_div60:
  assumes d: "is_double s" and s0: "0 \<le> s" and sb: "s < 60 * 2 ^ 50"
  shows "\<exists>r. round64 (s / 60) = Fin r \<and> \<lfloor>r\<rfloor> = \<lfloor>s / 60\<rfloor>"
proof -
  define x where "x = s / 60"
  define k where "k = \<lfloor>x\<rfloor>"
  define n where "n = rne (x / ulp x)"
  have x0: "0 \<le> x" using s0 by (simp add: x_def)
  have xb: "x < 2 ^ 53" using s0 sb by (simp add: x_def)
  then have "\<bar>x\<bar> < 2 powi (52 + 1)" using x0 by simp
  then have "expo x \<le> 52" by (rule expo_le) simp
  then have u: "ulp x = 1 / 2 ^ nat (52 - expo x)" by (rule ulp_inverse_pow)
  define N :: int where "N = 2 ^ nat (52 - expo x)"
  have Npos: "0 < N" by (simp add: N_def)
  have uN: "ulp x = 1 / of_int N" by (simp add: u N_def)
  have xu: "x / ulp x = x * of_int N" by (simp add: uN)
  have "\<bar>x\<bar> < 2 ^ 1024 - 2 ^ 970" using x0 xb by simp
  then have r: "round64 x = Fin (of_int n * ulp x)" by (simp add: round64_Fin n_def)
  have "of_int k \<le> x" by (simp add: k_def)
  then have "of_int k * of_int N \<le> x * of_int N"
    using Npos by (intro mult_right_mono) simp_all
  then have "of_int (k * N) \<le> x / ulp x" by (simp add: xu)
  then have "k * N \<le> n" unfolding n_def by (rule rne_ge_int)
  then have "(of_int (k * N) :: real) \<le> of_int n" by (simp only: of_int_le_iff)
  then have "of_int (k * N) / of_int N \<le> (of_int n :: real) / of_int N"
    using Npos by (intro divide_right_mono) simp_all
  then have lower: "of_int k \<le> of_int n * ulp x" using Npos by (simp add: uN)
  have "ulp x / 2 < of_int k + 1 - x"
    using half_ulp_below_next_minute [OF d s0 sb] by (simp add: x_def k_def)
  then have "1 / of_int N / 2 < of_int k + 1 - x" by (simp add: uN)
  then have "x * of_int N + 1 / 2 < (of_int k + 1) * of_int N"
    using Npos by (simp add: field_simps)
  then have "x / ulp x + 1 / 2 < of_int ((k + 1) * N)" by (simp add: xu)
  then have "n < (k + 1) * N" unfolding n_def by (rule rne_lt_int)
  then have "(of_int n :: real) < of_int ((k + 1) * N)" by (simp only: of_int_less_iff)
  then have "(of_int n :: real) / of_int N < of_int ((k + 1) * N) / of_int N"
    using Npos by (intro divide_strict_right_mono) simp_all
  then have upper: "of_int n * ulp x < of_int k + 1" using Npos by (simp add: uN)
  from lower upper have "\<lfloor>of_int n * ulp x\<rfloor> = k" by (simp add: floor_unique)
  with r show ?thesis by (simp add: x_def k_def)
qed


lemma round64_rel_err:
  assumes "\<bar>x\<bar> < 2 ^ 1023"
  shows "\<exists>r. round64 x = Fin r \<and> \<bar>r - x\<bar> \<le> \<bar>x\<bar> / 2 ^ 53 + 2 powi (- 1075)"
proof -
  from assms have "\<bar>x\<bar> < 2 ^ 1024 - 2 ^ 970" by simp
  then obtain r where r: "round64 x = Fin r" "\<bar>r - x\<bar> \<le> ulp x / 2"
    using round64_err by blast
  have "(2::real) powi (- 1074) = 2 * 2 powi (- 1075)"
    using pow2_add [of 1 "- 1075"] by simp
  with ulp_bound [of x] have "ulp x / 2 \<le> \<bar>x\<bar> / 2 ^ 53 + 2 powi (- 1075)" by simp
  with r show ?thesis by auto
qed

lemma progress_error:
  assumes q0: "0 \<le> q" and q1: "q \<le> 1"
  shows "\<exists>p. js_mul (round64 q) (Fin 100) = Fin p \<and>
             \<bar>p - 100 * q\<bar> \<le> 100 * q / 2 ^ 51 + 2 powi (- 1068)"
proof -
  define E :: real where "E = 2 powi (- 1075)"
  have E0: "0 \<le> E" by (simp add: E_def)
  have "E \<le> 2 powi 0" unfolding E_def by (rule pow2_mono) simp
  then have E1: "E \<le> 1" by simp
  have E128: "2 powi (- 1068) = 128 * E"
    using pow2_add [of 7 "- 1075"] by (simp add: E_def)
  have "\<bar>q\<bar> < 2 ^ 1023" using q0 q1 by simp
  then obtain y where y: "round64 q = Fin y" "\<bar>y - q\<bar> \<le> \<bar>q\<bar> / 2 ^ 53 + E"
    using round64_rel_err unfolding E_def by blast
  from y(2) q0 have yq: "\<bar>y - q\<bar> \<le> q / 2 ^ 53 + E" by simp
  define B where "B = q / 2 ^ 53 + E"
  from yq q0 have "\<bar>y\<bar> \<le> q + B" unfolding B_def [symmetric] by linarith
  then have ya: "\<bar>y\<bar> \<le> q + q / 2 ^ 53 + E" by (simp add: B_def)
  with q0 q1 E1 have "\<bar>y\<bar> \<le> 3" by simp
  then have "\<bar>y * 100\<bar> < 2 ^ 1023" by (simp add: abs_mult)
  then obtain p where p: "round64 (y * 100) = Fin p"
      "\<bar>p - y * 100\<bar> \<le> \<bar>y * 100\<bar> / 2 ^ 53 + E"
    using round64_rel_err unfolding E_def by blast
  have tri: "\<bar>(p - y * 100) + 100 * (y - q)\<bar> \<le> \<bar>p - y * 100\<bar> + \<bar>100 * (y - q)\<bar>"
    by (rule abs_triangle_ineq)
  have e1: "(p - y * 100) + 100 * (y - q) = p - 100 * q" by simp
  have e2: "\<bar>100 * (y - q)\<bar> = 100 * \<bar>y - q\<bar>" by (simp only: abs_mult abs_numeral)
  from tri have "\<bar>p - 100 * q\<bar> \<le> \<bar>p - y * 100\<bar> + 100 * \<bar>y - q\<bar>"
    unfolding e1 e2 .
  also have "\<dots> \<le> (100 * \<bar>y\<bar> / 2 ^ 53 + E) + 100 * (q / 2 ^ 53 + E)"
    using p(2) yq by (simp add: abs_mult)
  also have "\<dots> \<le> (100 * (q + q / 2 ^ 53 + E) / 2 ^ 53 + E) + 100 * (q / 2 ^ 53 + E)"
    using ya by simp
  also have "\<dots> \<le> 100 * q / 2 ^ 51 + 128 * E"
  proof -
    have "100 * (q + q / 2 ^ 53 + E) / 2 ^ 53 + E + 100 * (q / 2 ^ 53 + E)
        = q * (100 / 2 ^ 53 + 100 / 2 ^ 106 + 100 / 2 ^ 53) + E * (100 / 2 ^ 53 + 101)"
      by (simp add: field_simps)
    also have "\<dots> \<le> q * (100 / 2 ^ 51) + E * 128"
      using q0 E0 by (intro add_mono mult_left_mono) simp_all
    finally show ?thesis by simp
  qed
  finally have "\<bar>p - 100 * q\<bar> \<le> 100 * q / 2 ^ 51 + 2 powi (- 1068)"
    by (simp only: E128)
  with y(1) p(1) show ?thesis by simp
qed

lemmas eval64 = round64_def ulp_def expo_def rne_def expo_up.simps expo_down.simps

lemma round64_1 [simp]: "round64 1 = Fin 1" "round64 2 = Fin 2"
  using round64_of_int [of 1] round64_of_int [of 2] by simp_all

section \<open>Digits\<close>

lemma digit_char_0: "digit_char 0 = CHR ''0''"
  by (simp add: digit_char_def)

lemma decimal_one_digit: "n < 10 \<Longrightarrow> decimal n = [digit_char n]"
  by (simp add: decimal.simps)

lemma decimal_two_digits:
  "10 \<le> n \<Longrightarrow> n < 100 \<Longrightarrow> decimal n = [digit_char (n div 10), digit_char (n mod 10)]"
  by (subst decimal.simps) (simp add: decimal_one_digit)

lemma padded_seconds:
  "n < 100 \<Longrightarrow> (if n < 10 then ''0'' else '''') @ decimal n = two_digits n"
  by (simp add: two_digits_def decimal_one_digit decimal_two_digits digit_char_0)

lemma ToString_nat:
  assumes "0 \<le> k" "k \<le> 2 ^ 53"
  shows "ToString (Fin (of_int k)) = Some (decimal (nat k))"
proof -
  have "\<bar>of_int k :: real\<bar> \<le> 2 ^ 53"
    using assms by simp
  with assms show ?thesis by simp
qed

section \<open>Renders and the effect\<close>

lemmas handler_defs =
  togglePlayPause_def toggleMute_def handleTimeUpdate_def handleLoadedMetadata_def
  handleProgressClick_def handlePlaybackRateChange_def rewind_def fastForward_def
  handleFileUpload_def playNextTrack_def native_change_def

lemma issue_simps [simp]:
  "el_listeners (issue k v) = el_listeners v"
  "el_calls (issue k v) = el_calls v @ [k]"
  "el_currentTime (issue k v) = el_currentTime v"
  "el_duration (issue k v) = el_duration v"
  by (simp_all add: issue_def)

lemma onLoadedData_frame:
  "state (onLoadedData l c) = state c"
  "effect_deps (onLoadedData l c) = effect_deps c"
  "effect_cleanup (onLoadedData l c) = effect_cleanup c"
  "next_lid (onLoadedData l c) = next_lid c"
  "registered (onLoadedData l c) = registered c"
  by (simp_all add: onLoadedData_def registered_def split: option.splits)

lemma fold_onLoadedData_frame:
  "state (fold onLoadedData ls c) = state c \<and>
   effect_deps (fold onLoadedData ls c) = effect_deps c \<and>
   effect_cleanup (fold onLoadedData ls c) = effect_cleanup c \<and>
   next_lid (fold onLoadedData ls c) = next_lid c \<and>
   registered (fold onLoadedData ls c) = registered c"
  by (induction ls arbitrary: c) (simp_all add: onLoadedData_frame)

lemma fire_loadeddata_frame:
  "state (fire_loadeddata c) = state c"
  "effect_deps (fire_loadeddata c) = effect_deps c"
  "effect_cleanup (fire_loadeddata c) = effect_cleanup c"
  "registered (fire_loadeddata c) = registered c"
  by (simp_all add: fire_loadeddata_def fold_onLoadedData_frame split: option.splits)

lemma handle_effect_frame:
  "effect_deps (handle ev c) = effect_deps c \<and>
   effect_cleanup (handle ev c) = effect_cleanup c \<and>
   registered (handle ev c) = registered c"
  by (cases ev)
    (simp_all add: fire_loadeddata_frame,
     simp_all add: handler_defs registered_def Let_def split: option.splits)

lemma run_cleanup_frame:
  "state (run_cleanup c) = state c"
  "effect_cleanup (run_cleanup c) = None"
  "next_lid (run_cleanup c) = next_lid c"
  by (simp_all add: run_cleanup_def split: option.splits)

lemma run_cleanup_registered:
  assumes "registered c = (case effect_cleanup c of None \<Rightarrow> [] | Some l \<Rightarrow> [l])"
  shows "registered (run_cleanup c) = []"
  using assms
  by (auto simp: run_cleanup_def registered_def removeEventListener_def split: option.splits)

lemma track_effect_frame:
  "tracks (state (track_effect c)) = tracks (state c)"
  "tracks_ref (state (track_effect c)) = tracks_ref (state c)"
  "currentTrackIndex (state (track_effect c)) = currentTrackIndex (state c)"
  "duration (state (track_effect c)) = duration (state c)"
  "playbackRate (state (track_effect c)) = playbackRate (state c)"
  "isMuted (state (track_effect c)) = isMuted (state c)"
  by (simp_all add: track_effect_def Let_def split: option.splits)

lemma track_effect_registered:
  assumes "registered c = []"
  shows "registered (track_effect c) =
           (case effect_cleanup (track_effect c) of None \<Rightarrow> [] | Some l \<Rightarrow> [l])"
  using assms
  by (auto simp: track_effect_def registered_def addEventListener_def Let_def
      split: option.splits)

lemma commit_frame:
  "tracks (state (commit c)) = tracks (state c)"
  "tracks_ref (state (commit c)) = tracks_ref (state c)"
  "currentTrackIndex (state (commit c)) = currentTrackIndex (state c)"
  "duration (state (commit c)) = duration (state c)"
  "playbackRate (state (commit c)) = playbackRate (state c)"
  "isMuted (state (commit c)) = isMuted (state c)"
  by (simp_all add: commit_def Let_def track_effect_frame run_cleanup_frame)

lemma commit_unchanged:
  "effect_deps c = Some (currentTrackIndex (state c), tracks_ref (state c)) \<Longrightarrow> commit c = c"
  by (simp add: commit_def)

lemma commit_at_rest:
  assumes "registered c = (case effect_cleanup c of None \<Rightarrow> [] | Some l \<Rightarrow> [l])"
  shows "at_rest (commit c)"
proof (cases "effect_deps c = Some (currentTrackIndex (state c), tracks_ref (state c))")
  case True
  with assms show ?thesis by (simp add: commit_unchanged at_rest_def)
next
  case False
  have "registered (run_cleanup c) = []" using assms by (rule run_cleanup_registered)
  then have "registered (track_effect (run_cleanup c)) =
      (case effect_cleanup (track_effect (run_cleanup c)) of None \<Rightarrow> [] | Some l \<Rightarrow> [l])"
    by (rule track_effect_registered)
  with False show ?thesis
    by (simp add: commit_def at_rest_def registered_def track_effect_frame run_cleanup_frame)
qed

lemma at_rest_step: "at_rest c \<Longrightarrow> at_rest (step ev c)"
  unfolding step_def by (rule commit_at_rest) (simp add: handle_effect_frame at_rest_def)

lemma at_rest_run: "at_rest c \<Longrightarrow> at_rest (run evs c)"
  unfolding run_def by (induction evs arbitrary: c) (simp_all add: at_rest_step)

lemma at_rest_mount: "el_listeners v = [] \<Longrightarrow> at_rest (mount (Some v))"
  unfolding mount_def by (rule commit_at_rest) (simp add: registered_def)



lemmas model_defs =
  mount_def commit_def track_effect_def run_cleanup_def step_def run_def initial_state_def
  new_video_def array_get_def array_length_def issue_def addEventListener_def
  removeEventListener_def fire_loadeddata_def onLoadedData_def newTrack_def

lemmas example_defs = a_mp4_def b_mp4_def c_mp4_def playing_first_of_two_def
  quarter_played_def two_minutes_loaded_def

lemma commit_keeps_stopped:
  assumes "\<not> isPlaying (state c)" "progress (state c) = Fin 0" "currentTime (state c) = Fin 0"
  shows "\<not> isPlaying (state (commit c)) \<and> progress (state (commit c)) = Fin 0 \<and>
         currentTime (state (commit c)) = Fin 0"
  using assms
  by (simp add: commit_def track_effect_def run_cleanup_def Let_def split: option.splits)

lemma step_at_rest_same_deps:
  assumes "at_rest c"
    and "currentTrackIndex (state (handle ev c)) = currentTrackIndex (state c)"
    and "tracks_ref (state (handle ev c)) = tracks_ref (state c)"
  shows "step ev c = handle ev c"
  unfolding step_def using assms
  by (intro commit_unchanged) (simp add: handle_effect_frame at_rest_def)

lemma handle_duration:
  "ev \<noteq> LoadedMetadata \<Longrightarrow> duration (state (handle ev c)) = duration (state c)"
  by (cases ev)
    (simp_all add: fire_loadeddata_frame,
     simp_all add: handler_defs Let_def split: option.splits)

lemma handle_next_lid: "next_lid (handle ev c) = next_lid c"
  by (cases ev)
    (simp_all add: fire_loadeddata_def fold_onLoadedData_frame split: option.splits,
     simp_all add: handler_defs Let_def split: option.splits)

lemma track_effect_newest_closure:
  "effect_cleanup (track_effect c) = Some l \<Longrightarrow> Suc (lid l) = next_lid (track_effect c)"
  by (auto simp: track_effect_def Let_def split: option.splits)

lemma commit_newest_closure:
  assumes "\<And>l. effect_cleanup c = Some l \<Longrightarrow> Suc (lid l) = next_lid c"
    and "effect_cleanup (commit c) = Some l"
  shows "Suc (lid l) = next_lid (commit c)"
proof (cases "effect_deps c = Some (currentTrackIndex (state c), tracks_ref (state c))")
  case True
  then have "commit c = c" by (rule commit_unchanged)
  with assms show ?thesis by simp
next
  case False
  then have "effect_cleanup (commit c) = effect_cleanup (track_effect (run_cleanup c))"
    "next_lid (commit c) = next_lid (track_effect (run_cleanup c))"
    by (simp_all add: commit_def)
  with assms(2) show ?thesis by (simp add: track_effect_newest_closure)
qed

lemma run_newest_closure:
  assumes "\<And>l. effect_cleanup c = Some l \<Longrightarrow> Suc (lid l) = next_lid c"
    and "effect_cleanup (run evs c) = Some l"
  shows "Suc (lid l) = next_lid (run evs c)"
  using assms unfolding run_def
proof (induction evs arbitrary: c)
  case Nil
  then show ?case by simp
next
  case (Cons ev evs)
  have "\<And>l. effect_cleanup (step ev c) = Some l \<Longrightarrow> Suc (lid l) = next_lid (step ev c)"
    unfolding step_def
    by (rule commit_newest_closure) (simp_all add: handle_effect_frame handle_next_lid Cons.prems(1))
  then show ?case using Cons.IH [of "step ev c"] Cons.prems(2) by simp
qed

lemma track_change_effect:
  assumes rest: "registered h = (case effect_cleanup h of None \<Rightarrow> [] | Some l \<Rightarrow> [l])"
    and ref: "videoRef h = Some v"
    and change: "effect_deps h \<noteq> Some (currentTrackIndex (state h), tracks_ref (state h))"
    and track: "array_get (tracks (state h)) (currentTrackIndex (state h)) = Some track"
  shows "isPlaying (state (commit h)) = False \<and>
         currentTime (state (commit h)) = Fin 0 \<and>
         progress (state (commit h)) = Fin 0 \<and>
         at_rest (commit h) \<and>
         (\<exists>l v'. videoRef (commit h) = Some v' \<and> el_listeners v' = [l] \<and>
            captured_isPlaying l = isPlaying (state h) \<and>
            el_calls v' =
              el_calls v @
              (case effect_cleanup h of None \<Rightarrow> [] | Some l0 \<Rightarrow> [RemoveEventListener l0]) @
              [Pause, SetSrc (src track), Load, AddEventListener l])"
proof -
  have r: "at_rest (commit h)" using rest by (rule commit_at_rest)
  obtain v0 where v0: "videoRef (run_cleanup h) = Some v0" "el_listeners v0 = []"
      "el_calls v0 = el_calls v @
         (case effect_cleanup h of None \<Rightarrow> [] | Some l0 \<Rightarrow> [RemoveEventListener l0])"
    using rest ref
    by (cases "effect_cleanup h")
      (auto simp: run_cleanup_def registered_def removeEventListener_def)
  from change have c: "commit h = (track_effect (run_cleanup h))
      \<lparr>effect_deps := Some (currentTrackIndex (state h), tracks_ref (state h))\<rparr>"
    by (simp add: commit_def)
  show ?thesis
    using r v0 track unfolding c
    by (simp add: track_effect_def run_cleanup_frame Let_def addEventListener_def)
qed

lemma loadeddata_one_listener:
  assumes "at_rest c" and "videoRef c = Some v" and "el_listeners v = [l]"
  shows "videoRef (step LoadedData c) =
           Some (if captured_isPlaying l then issue Play v else v)"
proof -
  have "step LoadedData c = fire_loadeddata c"
    using assms(1) by (subst step_at_rest_same_deps) (simp_all add: fire_loadeddata_frame)
  with assms show ?thesis by (simp add: fire_loadeddata_def onLoadedData_def)
qed

lemma playNextTrack_index:
  assumes i: "currentTrackIndex (state c) = Fin (of_nat i)"
    and lt: "i < length (tracks (state c))"
    and len: "length (tracks (state c)) < 2 ^ 32"
  shows "currentTrackIndex (state (playNextTrack c)) =
           Fin (of_nat ((i + 1) mod length (tracks (state c))))"
proof -
  define n where "n = length (tracks (state c))"
  have n0: "0 < n" using lt unfolding n_def by linarith
  have "\<bar>int i + 1\<bar> < 2 ^ 53" using lt len by simp
  then have "round64 (of_int (int i + 1)) = Fin (of_int (int i + 1))"
    by (rule round64_of_int)
  then have add: "round64 (of_nat i + 1) = Fin (of_nat (i + 1))" by simp
  have "0 \<le> (of_nat (i + 1) :: real) / of_nat n" by simp
  then have "trunc (of_nat (i + 1) / of_nat n) = int ((i + 1) div n)"
    by (simp only: trunc_def if_True floor_divide_of_nat_eq)
  moreover have "(of_nat (i + 1) :: real) - of_nat n * of_nat ((i + 1) div n) = of_nat ((i + 1) mod n)"
  proof -
    have "(of_nat ((i + 1) mod n) :: real) + of_nat n * of_nat ((i + 1) div n)
        = of_nat ((i + 1) mod n + n * ((i + 1) div n))"
      by (simp only: of_nat_add of_nat_mult)
    also have "\<dots> = of_nat (i + 1)" by (simp only: mod_mult_div_eq)
    finally show ?thesis by linarith
  qed
  ultimately have "js_mod (Fin (of_nat (i + 1))) (Fin (of_nat n)) = Fin (of_nat ((i + 1) mod n))"
    using n0 by simp
  then show ?thesis
    by (simp add: playNextTrack_def i array_length_def add flip: n_def)
qed

lemma playNextTrack_empty:
  assumes "tracks (state c) = []"
  shows "currentTrackIndex (state (playNextTrack c)) = NaN"
proof (cases "js_add (currentTrackIndex (state c)) (Fin 1)")
  case (Fin y)
  with assms show ?thesis by (simp add: playNextTrack_def array_length_def)
qed (use assms in \<open>simp_all add: playNextTrack_def array_length_def\<close>)


lemma playing_first_of_two_eval:
  "playing_first_of_two =
     \<lparr>state =
        \<lparr>isPlaying = True, isMuted = False, progress = Fin 0, currentTime = Fin 0,
         duration = Fin 0, playbackRate = Fin 1,
         tracks = [\<lparr>title = ''a.mp4'', src = ''blob:a''\<rparr>,
                   \<lparr>title = ''b.mp4'', src = ''blob:b''\<rparr>],
         tracks_ref = 1, currentTrackIndex = Fin 0\<rparr>,
      videoRef =
        Some \<lparr>el_currentTime = Fin 0, el_duration = NaN,
               el_listeners = [\<lparr>lid = 0, captured_isPlaying = False\<rparr>],
               el_calls = [Pause, SetSrc ''blob:a'', Load,
                           AddEventListener \<lparr>lid = 0, captured_isPlaying = False\<rparr>,
                           Play]\<rparr>,
      effect_deps = Some (Fin 0, 1),
      effect_cleanup = Some \<lparr>lid = 0, captured_isPlaying = False\<rparr>,
      next_lid = 1\<rparr>"
  by (simp add: example_defs model_defs handler_defs Let_def)

section \<open>The claims\<close>

subsection \<open>C1: progress after a time update\<close>

text \<open>
  C1. When the element reports a duration \<open>d > 0\<close> and a position \<open>t\<close> with
  \<open>0 \<le> t \<le> d\<close>, \<open>handleTimeUpdate\<close> stores \<open>currentTime = t\<close> and a finite
  \<open>progress\<close> that is \<open>100 * t / d\<close> up to the rounding of the division and of the
  multiplication: the relative error is at most \<open>2 ^ -51\<close>, with \<open>2 powi (-1068)\<close> more
  where the quotient underflows.
\<close>

theorem handleTimeUpdate_progress:
  assumes "videoRef c = Some v"
    and "el_currentTime v = Fin t" and "el_duration v = Fin d"
    and "0 < d" and "0 \<le> t" and "t \<le> d"
  shows "currentTime (state (handleTimeUpdate c)) = Fin t \<and>
         (\<exists>p. progress (state (handleTimeUpdate c)) = Fin p \<and>
              \<bar>p - 100 * t / d\<bar> \<le> (100 * t / d) / 2 ^ 51 + 2 powi (- 1068))"
proof -
  have "0 \<le> t / d" "t / d \<le> 1" using assms by simp_all
  then obtain p where "js_mul (round64 (t / d)) (Fin 100) = Fin p"
    "\<bar>p - 100 * (t / d)\<bar> \<le> 100 * (t / d) / 2 ^ 51 + 2 powi (- 1068)"
    using progress_error by blast
  with assms show ?thesis by (simp add: handleTimeUpdate_def Let_def)
qed

text \<open>At the position 30 of 120 seconds the stored progress is 25 exactly.\<close>

theorem handleTimeUpdate_progress_witness:
  "videoRef quarter_played =
     Some (new_video\<lparr>el_currentTime := Fin 30, el_duration := Fin 120\<rparr>) \<and>
   (0::real) < 120 \<and> (0::real) \<le> 30 \<and> (30::real) \<le> 120 \<and>
   currentTime (state (handleTimeUpdate quarter_played)) = Fin 30 \<and>
   progress (state (handleTimeUpdate quarter_played)) = Fin 25 \<and>
   (\<exists>p. progress (state (handleTimeUpdate quarter_played)) = Fin p \<and>
        \<bar>p - 100 * 30 / 120\<bar> \<le> (100 * 30 / 120) / 2 ^ 51 + 2 powi (- 1068))"
proof -
  have v: "videoRef quarter_played =
      Some (new_video\<lparr>el_currentTime := Fin 30, el_duration := Fin 120\<rparr>)"
    by (simp add: example_defs model_defs handler_defs Let_def)
  have p: "progress (state (handleTimeUpdate quarter_played)) = Fin 25"
    by (simp add: example_defs model_defs handler_defs Let_def eval64)
  from handleTimeUpdate_progress [OF v, of 30 120] v p show ?thesis
    by (simp add: new_video_def)
qed

subsection \<open>C2: the time readout\<close>

text \<open>
  C2, as amended. For every binary64 number of seconds \<open>s\<close> with
  \<open>0 \<le> s < 60 * 2 ^ 50\<close>, that is below minute \<open>2 ^ 50\<close>, \<open>formatTime\<close> renders
  \<open>M:SS\<close> with \<open>M = floor(s / 60)\<close> in decimal digits without padding and
  \<open>SS = floor(s mod 60)\<close> as two digits; there is no hours part.
\<close>

theorem formatTime_spec:
  assumes d: "is_double s" and s0: "0 \<le> s" and sb: "s < 60 * 2 ^ 50"
  shows "formatTime (Fin s) = Some (spec_formatTime s)"
proof -
  define mi where "mi = \<lfloor>s / 60\<rfloor>"
  define se where "se = \<lfloor>s - 60 * of_int mi\<rfloor>"
  from floor_round64_div60 [OF d s0 sb] obtain r
    where r: "round64 (s / 60) = Fin r" "\<lfloor>r\<rfloor> = mi" by (auto simp: mi_def)
  have mi0: "0 \<le> mi" using s0 by (simp add: mi_def)
  have "of_int mi \<le> s / 60" unfolding mi_def by (rule of_int_floor_le)
  also have "\<dots> \<le> 2 ^ 53" using s0 sb by simp
  finally have "mi \<le> 2 ^ 53" by simp
  with mi0 have tm: "ToString (Fin (of_int mi)) = Some (decimal (nat mi))"
    by (rule ToString_nat)
  have fl: "of_int mi \<le> s / 60" "s / 60 < of_int mi + 1"
    unfolding mi_def by linarith+
  from fl have lo: "0 \<le> s - 60 * of_int mi" by linarith
  from fl have hi: "s - 60 * of_int mi < 60" by linarith
  from lo have se0: "0 \<le> se" by (simp add: se_def)
  from hi have "se < 60" by (simp add: se_def floor_less_iff)
  then have se60: "nat se < 60" using se0 by simp
  from se0 \<open>se < 60\<close> have ts: "ToString (Fin (of_int se)) = Some (decimal (nat se))"
    by (intro ToString_nat) simp_all
  have minutes: "Math_floor (js_div (Fin s) (Fin 60)) = Fin (of_int mi)"
    by (simp add: r)
  have "trunc (s / 60) = mi" using s0 by (simp add: trunc_def mi_def)
  then have seconds: "Math_floor (js_mod (Fin s) (Fin 60)) = Fin (of_int se)"
    by (simp add: se_def)
  have lt: "js_lt (Fin (of_int se)) (Fin 10) \<longleftrightarrow> nat se < 10"
    using se0 by (simp add: nat_less_iff)
  have "formatTime (Fin s) =
      Some (decimal (nat mi) @ '':'' @ (if nat se < 10 then ''0'' else '''') @ decimal (nat se))"
    unfolding formatTime_def Let_def minutes seconds tm ts lt by simp
  also have "(if nat se < 10 then ''0'' else '''') @ decimal (nat se) = two_digits (nat se)"
    using se60 by (intro padded_seconds) simp
  finally show ?thesis by (simp add: spec_formatTime_def mi_def se_def)
qed

text \<open>The three readouts the specification lists.\<close>

lemma is_double_small: "is_double 65" "is_double 5" "is_double 0"
  using round64_of_int [of 65] round64_of_int [of 5] round64_of_int [of 0]
  by (simp_all add: is_double_def)

theorem formatTime_spec_witness:
  "is_double 65 \<and> (0::real) \<le> 65 \<and> (65::real) < 60 * 2 ^ 50 \<and>
   formatTime (Fin 65) = Some ''1:05'' \<and> formatTime (Fin 5) = Some ''0:05'' \<and>
   formatTime (Fin 0) = Some ''0:00''"
  using formatTime_spec [of 65] formatTime_spec [of 5] formatTime_spec [of 0]
  by (simp add: is_double_small spec_formatTime_def two_digits_def decimal.simps digit_char_def)

text \<open>
  C2 as stated, for every non-negative finite number, fails, and the bound above is the
  first minute where it does: the binary64 number \<open>60 * 2 ^ 50 + 56 = 67553994410557496\<close>
  is 56 seconds past minute \<open>2 ^ 50 = 1125899906842624\<close>, and its quotient by 60 rounds
  up to the next integer before \<open>Math.floor\<close> is applied, so the readout shows minute
  1125899906842625.
\<close>

theorem formatTime_rounds_up_counterexample:
  "is_double 67553994410557496 \<and>
   formatTime (Fin 67553994410557496) = Some ''1125899906842625:56'' \<and>
   spec_formatTime 67553994410557496 = ''1125899906842624:56''"
  by (simp add: is_double_def formatTime_def eval64 trunc_def spec_formatTime_def
      two_digits_def decimal.simps digit_char_def)

subsection \<open>C3: next track on an empty playlist\<close>

text \<open>
  C3. On an empty playlist \<open>playNextTrack\<close> should leave the index as it is. The code
  has no guard: the remainder by the length 0 is NaN, and the freshly mounted component,
  whose index is 0, has the index NaN after a click on the next-track button. Nothing is
  thrown.
\<close>

theorem playNextTrack_empty_playlist:
  "tracks (state (mount (Some new_video))) = [] \<and>
   currentTrackIndex (state (mount (Some new_video))) = Fin 0 \<and>
   currentTrackIndex (state (step ClickNext (mount (Some new_video)))) = NaN"
  by (simp add: model_defs handler_defs Let_def eval64)

subsection \<open>C4: next track wraps around\<close>

text \<open>
  C4. On a non-empty playlist of length \<open>n\<close> (a JavaScript array has fewer than
  \<open>2 ^ 32\<close> elements) with the index \<open>i < n\<close>, a click on the next-track button sets
  the index to \<open>(i + 1) mod n\<close>.
\<close>

theorem playNextTrack_wraps:
  assumes "currentTrackIndex (state c) = Fin (of_nat i)"
    and "i < length (tracks (state c))"
    and "length (tracks (state c)) < 2 ^ 32"
  shows "currentTrackIndex (state (step ClickNext c)) =
           Fin (of_nat ((i + 1) mod length (tracks (state c))))"
  using playNextTrack_index [OF assms] by (simp add: step_def commit_frame)

text \<open>Three tracks, index 2: the next index is 0.\<close>

theorem playNextTrack_wraps_witness:
  "currentTrackIndex
     (state (run [FileChange (Some [a_mp4, b_mp4, c_mp4]), ClickNext, ClickNext]
               (mount (Some new_video)))) = Fin (of_nat 2) \<and>
   (2::nat) < length (tracks
     (state (run [FileChange (Some [a_mp4, b_mp4, c_mp4]), ClickNext, ClickNext]
               (mount (Some new_video))))) \<and>
   length (tracks
     (state (run [FileChange (Some [a_mp4, b_mp4, c_mp4]), ClickNext, ClickNext]
               (mount (Some new_video))))) < 2 ^ 32 \<and>
   currentTrackIndex
     (state (step ClickNext
        (run [FileChange (Some [a_mp4, b_mp4, c_mp4]), ClickNext, ClickNext]
           (mount (Some new_video))))) = Fin 0"
proof -
  let ?c = "run [FileChange (Some [a_mp4, b_mp4, c_mp4]), ClickNext, ClickNext]
              (mount (Some new_video))"
  have t: "length (tracks (state ?c)) = 3"
    by (simp add: run_def step_def commit_frame handler_defs mount_def initial_state_def)
  have i: "currentTrackIndex (state ?c) = Fin (of_nat 2)"
    by (simp add: run_def step_def commit_frame handler_defs mount_def initial_state_def
        array_length_def eval64 trunc_def)
  from playNextTrack_wraps [of ?c 2] t i show ?thesis by simp
qed

subsection \<open>C5: selecting files\<close>

text \<open>
  C5. From every state, selecting a list of files appends one track per file, in the
  order of the selection and whatever the playlist already holds, sets the index to 0,
  \<open>isPlaying\<close> to false, and \<open>currentTime\<close> and \<open>progress\<close> to 0; the render and the
  effect that follow keep all of this.
\<close>

theorem handleFileUpload_appends_and_resets:
  "tracks (state (step (FileChange (Some fs)) c)) = tracks (state c) @ map newTrack fs \<and>
   length (tracks (state (step (FileChange (Some fs)) c))) = length (tracks (state c)) + length fs \<and>
   currentTrackIndex (state (step (FileChange (Some fs)) c)) = Fin 0 \<and>
   isPlaying (state (step (FileChange (Some fs)) c)) = False \<and>
   currentTime (state (step (FileChange (Some fs)) c)) = Fin 0 \<and>
   progress (state (step (FileChange (Some fs)) c)) = Fin 0"
proof -
  let ?h = "handleFileUpload (Some fs) c"
  have "\<not> isPlaying (state ?h)" "progress (state ?h) = Fin 0" "currentTime (state ?h) = Fin 0"
    by (simp_all add: handleFileUpload_def)
  then have "\<not> isPlaying (state (commit ?h)) \<and> progress (state (commit ?h)) = Fin 0 \<and>
      currentTime (state (commit ?h)) = Fin 0"
    by (rule commit_keeps_stopped)
  moreover have "tracks (state ?h) = tracks (state c) @ map newTrack fs"
    "currentTrackIndex (state ?h) = Fin 0"
    by (simp_all add: handleFileUpload_def)
  ultimately show ?thesis by (simp add: step_def commit_frame)
qed

text \<open>Selecting \<open>a.mp4\<close> and \<open>b.mp4\<close> on the empty playlist.\<close>

theorem handleFileUpload_example:
  "tracks (state (step (FileChange (Some [a_mp4, b_mp4])) (mount (Some new_video))))
     = [\<lparr>title = ''a.mp4'', src = ''blob:a''\<rparr>, \<lparr>title = ''b.mp4'', src = ''blob:b''\<rparr>] \<and>
   currentTrackIndex (state (step (FileChange (Some [a_mp4, b_mp4])) (mount (Some new_video))))
     = Fin 0 \<and>
   isPlaying (state (step (FileChange (Some [a_mp4, b_mp4])) (mount (Some new_video))))
     = False \<and>
   currentTime (state (step (FileChange (Some [a_mp4, b_mp4])) (mount (Some new_video))))
     = Fin 0 \<and>
   progress (state (step (FileChange (Some [a_mp4, b_mp4])) (mount (Some new_video))))
     = Fin 0"
  using handleFileUpload_appends_and_resets [of "[a_mp4, b_mp4]" "mount (Some new_video)"]
  by (simp add: mount_def commit_frame initial_state_def newTrack_def example_defs)

subsection \<open>C6: a change of track\<close>

text \<open>
  C6, as amended. When a click on the next-track button or a selection of files changes
  the index or the playlist of a component at rest, and the new index has a track, the
  component removes the listener of the previous run, issues \<open>pause\<close>, assigns the
  track's \<open>src\<close>, issues \<open>load\<close> and registers one \<open>loadeddata\<close> listener; it is then
  paused at position 0 (\<open>isPlaying = false\<close>, \<open>currentTime = 0\<close>, \<open>progress = 0\<close>). When
  \<open>loadeddata\<close> fires next, \<open>play\<close> is issued to the element exactly if the change came
  from the next-track button while \<open>isPlaying\<close> was true; after a selection of files no
  \<open>play\<close> is issued.
\<close>

theorem track_change_reloads_and_resumes:
  assumes rest: "at_rest c" and ref: "videoRef c = Some v"
    and ev: "ev = ClickNext \<or> ev = FileChange (Some fs)"
    and change: "effect_deps c \<noteq>
        Some (currentTrackIndex (state (handle ev c)), tracks_ref (state (handle ev c)))"
    and track: "array_get (tracks (state (handle ev c)))
        (currentTrackIndex (state (handle ev c))) = Some track"
  shows "isPlaying (state (step ev c)) = False \<and>
         currentTime (state (step ev c)) = Fin 0 \<and>
         progress (state (step ev c)) = Fin 0 \<and>
         (\<exists>l v'. videoRef (step ev c) = Some v' \<and> el_listeners v' = [l] \<and>
            el_calls v' =
              el_calls v @
              (case effect_cleanup c of None \<Rightarrow> [] | Some l0 \<Rightarrow> [RemoveEventListener l0]) @
              [Pause, SetSrc (src track), Load, AddEventListener l] \<and>
            (\<exists>v''. videoRef (step LoadedData (step ev c)) = Some v'' \<and>
               el_calls v'' =
                 el_calls v' @ (if ev = ClickNext \<and> isPlaying (state c) then [Play] else [])))"
proof -
  let ?h = "handle ev c"
  have h: "videoRef ?h = Some v"
    "isPlaying (state ?h) = (ev = ClickNext \<and> isPlaying (state c))"
    using ev ref by (auto simp: playNextTrack_def handleFileUpload_def)
  have reg: "registered ?h = (case effect_cleanup ?h of None \<Rightarrow> [] | Some l \<Rightarrow> [l])"
    using rest by (simp add: handle_effect_frame at_rest_def)
  have chg: "effect_deps ?h \<noteq> Some (currentTrackIndex (state ?h), tracks_ref (state ?h))"
    using change by (simp add: handle_effect_frame)
  from track_change_effect [OF reg h(1) chg track]
  obtain l v' where s: "isPlaying (state (commit ?h)) = False"
      "currentTime (state (commit ?h)) = Fin 0" "progress (state (commit ?h)) = Fin 0"
      "at_rest (commit ?h)" "videoRef (commit ?h) = Some v'" "el_listeners v' = [l]"
      "captured_isPlaying l = isPlaying (state ?h)"
      "el_calls v' = el_calls v @
         (case effect_cleanup ?h of None \<Rightarrow> [] | Some l0 \<Rightarrow> [RemoveEventListener l0]) @
         [Pause, SetSrc (src track), Load, AddEventListener l]"
    by blast
  have "videoRef (step LoadedData (commit ?h)) =
      Some (if captured_isPlaying l then issue Play v' else v')"
    using s(4,5,6) by (rule loadeddata_one_listener)
  with s h(2) show ?thesis by (simp add: step_def handle_effect_frame)
qed

text \<open>The player that plays the first of two tracks, and a click on next.\<close>

theorem track_change_reloads_and_resumes_witness:
  "at_rest playing_first_of_two \<and>
   array_get (tracks (state (handle ClickNext playing_first_of_two)))
     (currentTrackIndex (state (handle ClickNext playing_first_of_two)))
     = Some \<lparr>title = ''b.mp4'', src = ''blob:b''\<rparr> \<and>
   effect_deps playing_first_of_two \<noteq>
     Some (currentTrackIndex (state (handle ClickNext playing_first_of_two)),
           tracks_ref (state (handle ClickNext playing_first_of_two))) \<and>
   isPlaying (state (step ClickNext playing_first_of_two)) = False \<and>
   currentTime (state (step ClickNext playing_first_of_two)) = Fin 0 \<and>
   progress (state (step ClickNext playing_first_of_two)) = Fin 0 \<and>
   map_option el_calls (videoRef (step LoadedData (step ClickNext playing_first_of_two))) =
     Some [Pause, SetSrc ''blob:a'', Load,
           AddEventListener \<lparr>lid = 0, captured_isPlaying = False\<rparr>, Play,
           RemoveEventListener \<lparr>lid = 0, captured_isPlaying = False\<rparr>,
           Pause, SetSrc ''blob:b'', Load,
           AddEventListener \<lparr>lid = 1, captured_isPlaying = True\<rparr>, Play]"
proof -
  have r: "at_rest playing_first_of_two"
    unfolding playing_first_of_two_def
    by (intro at_rest_run at_rest_mount) (simp add: new_video_def)
  have v: "videoRef playing_first_of_two =
      Some \<lparr>el_currentTime = Fin 0, el_duration = NaN,
             el_listeners = [\<lparr>lid = 0, captured_isPlaying = False\<rparr>],
             el_calls = [Pause, SetSrc ''blob:a'', Load,
                         AddEventListener \<lparr>lid = 0, captured_isPlaying = False\<rparr>,
                         Play]\<rparr>"
    by (simp add: playing_first_of_two_eval)
  have t: "array_get (tracks (state (handle ClickNext playing_first_of_two)))
      (currentTrackIndex (state (handle ClickNext playing_first_of_two)))
      = Some \<lparr>title = ''b.mp4'', src = ''blob:b''\<rparr>"
    unfolding playing_first_of_two_eval
    by (simp add: model_defs handler_defs trunc_def)
  have d: "effect_deps playing_first_of_two \<noteq>
      Some (currentTrackIndex (state (handle ClickNext playing_first_of_two)),
            tracks_ref (state (handle ClickNext playing_first_of_two)))"
    unfolding playing_first_of_two_eval
    by (simp add: model_defs handler_defs trunc_def)
  have e: "effect_cleanup playing_first_of_two = Some \<lparr>lid = 0, captured_isPlaying = False\<rparr>"
    "isPlaying (state playing_first_of_two)"
    by (simp_all add: playing_first_of_two_eval)
  from track_change_reloads_and_resumes [OF r v _ d t, of "[]"]
  obtain v' v'' where
    "isPlaying (state (step ClickNext playing_first_of_two)) = False"
    "currentTime (state (step ClickNext playing_first_of_two)) = Fin 0"
    "progress (state (step ClickNext playing_first_of_two)) = Fin 0"
    "videoRef (step ClickNext playing_first_of_two) = Some v'"
    "videoRef (step LoadedData (step ClickNext playing_first_of_two)) = Some v''"
    "el_calls v'' = el_calls v' @ [Play]"
    using e by auto
  moreover have "map_option el_calls
      (videoRef (step LoadedData (step ClickNext playing_first_of_two))) =
     Some [Pause, SetSrc ''blob:a'', Load,
           AddEventListener \<lparr>lid = 0, captured_isPlaying = False\<rparr>, Play,
           RemoveEventListener \<lparr>lid = 0, captured_isPlaying = False\<rparr>,
           Pause, SetSrc ''blob:b'', Load,
           AddEventListener \<lparr>lid = 1, captured_isPlaying = True\<rparr>, Play]"
    unfolding playing_first_of_two_eval
    by (simp add: model_defs handler_defs Let_def trunc_def)
  ultimately show ?thesis using r t d by simp
qed

text \<open>
  C6 as stated fails. The player is playing the first of two tracks. After a click on
  next and the \<open>loadeddata\<close> of the second track, \<open>play\<close> has been issued but
  \<open>isPlaying\<close> is false. After a selection of a third file instead, and \<open>loadeddata\<close>,
  \<open>isPlaying\<close> is false and no \<open>play\<close> has followed the \<open>load\<close>: \<open>handleFileUpload\<close> has
  set \<open>isPlaying\<close> to false before the effect captures it.
\<close>

theorem auto_resume_counterexample:
  "isPlaying (state playing_first_of_two) = True \<and>
   isPlaying (state (run [ClickNext, LoadedData] playing_first_of_two)) = False \<and>
   map_option el_calls (videoRef (run [ClickNext, LoadedData] playing_first_of_two)) =
     Some [Pause, SetSrc ''blob:a'', Load,
           AddEventListener \<lparr>lid = 0, captured_isPlaying = False\<rparr>, Play,
           RemoveEventListener \<lparr>lid = 0, captured_isPlaying = False\<rparr>,
           Pause, SetSrc ''blob:b'', Load,
           AddEventListener \<lparr>lid = 1, captured_isPlaying = True\<rparr>, Play] \<and>
   isPlaying (state (run [FileChange (Some [c_mp4]), LoadedData] playing_first_of_two)) = False \<and>
   map_option el_calls
       (videoRef (run [FileChange (Some [c_mp4]), LoadedData] playing_first_of_two)) =
     Some [Pause, SetSrc ''blob:a'', Load,
           AddEventListener \<lparr>lid = 0, captured_isPlaying = False\<rparr>, Play,
           RemoveEventListener \<lparr>lid = 0, captured_isPlaying = False\<rparr>,
           Pause, SetSrc ''blob:a'', Load,
           AddEventListener \<lparr>lid = 1, captured_isPlaying = False\<rparr>]"
  unfolding playing_first_of_two_eval
  by (simp add: c_mp4_def model_defs handler_defs Let_def trunc_def)

subsection \<open>C7: toggling twice\<close>

text \<open>
  C7. With a video element, two clicks on the play/pause button bring \<open>isPlaying\<close> back
  to what it was, and the element receives \<open>pause\<close> then \<open>play\<close> if the component was
  playing, \<open>play\<close> then \<open>pause\<close> if it was paused, after whatever it had received before.
\<close>

theorem togglePlayPause_twice:
  assumes "at_rest c" and "videoRef c = Some v"
  shows "isPlaying (state (step ClickPlayPause c)) = (\<not> isPlaying (state c)) \<and>
         isPlaying (state (step ClickPlayPause (step ClickPlayPause c))) = isPlaying (state c) \<and>
         (\<exists>v'. videoRef (step ClickPlayPause (step ClickPlayPause c)) = Some v' \<and>
               el_calls v' = el_calls v @ (if isPlaying (state c) then [Pause, Play]
                                           else [Play, Pause]))"
proof -
  have 1: "step ClickPlayPause c = togglePlayPause c"
    using assms by (subst step_at_rest_same_deps) (simp_all add: togglePlayPause_def)
  have "at_rest (step ClickPlayPause c)" using assms(1) by (rule at_rest_step)
  then have 2: "step ClickPlayPause (togglePlayPause c) = togglePlayPause (togglePlayPause c)"
    unfolding 1 using assms
    by (subst step_at_rest_same_deps) (simp_all add: togglePlayPause_def)
  show ?thesis unfolding 1 2 using assms(2) by (simp add: togglePlayPause_def)
qed

text \<open>From the freshly mounted, paused component: \<open>play\<close>, then \<open>pause\<close>.\<close>

theorem togglePlayPause_twice_witness:
  "at_rest (mount (Some new_video)) \<and> videoRef (mount (Some new_video)) = Some new_video \<and>
   isPlaying (state (mount (Some new_video))) = False \<and>
   isPlaying (state (step ClickPlayPause (step ClickPlayPause (mount (Some new_video))))) = False \<and>
   (\<exists>v'. videoRef (step ClickPlayPause (step ClickPlayPause (mount (Some new_video)))) = Some v' \<and>
         el_calls v' = [Play, Pause])"
proof -
  have r: "at_rest (mount (Some new_video))" by (rule at_rest_mount) (simp add: new_video_def)
  have v: "videoRef (mount (Some new_video)) = Some new_video"
    by (simp add: model_defs Let_def)
  have p: "isPlaying (state (mount (Some new_video))) = False"
    by (simp add: model_defs Let_def)
  from togglePlayPause_twice [OF r v] r v p show ?thesis by (simp add: new_video_def)
qed

subsection \<open>C8: a time update without a duration\<close>

text \<open>
  C8. When the element reports the duration 0 or NaN, \<open>handleTimeUpdate\<close> divides all the
  same: it stores the reported position and a \<open>progress\<close> that is not finite. The value is
  NaN when the duration is NaN or the position is 0 (or NaN), which covers every position
  within the duration; a position other than 0 over the duration 0 gives an infinity.
\<close>

theorem handleTimeUpdate_zero_duration:
  assumes "videoRef c = Some v"
    and "el_duration v = Fin 0 \<or> el_duration v = NaN"
  shows "currentTime (state (handleTimeUpdate c)) = el_currentTime v \<and>
         \<not> isFinite (progress (state (handleTimeUpdate c))) \<and>
         (progress (state (handleTimeUpdate c)) = NaN \<longleftrightarrow>
            el_duration v = NaN \<or> el_currentTime v = Fin 0 \<or> el_currentTime v = NaN)"
  using assms
  by (cases "el_currentTime v")
    (auto simp: handleTimeUpdate_def Let_def isFinite_def split: if_splits)

text \<open>The element of a freshly mounted component: position 0, duration NaN.\<close>

theorem handleTimeUpdate_zero_duration_witness:
  "videoRef (mount (Some new_video)) = Some new_video \<and>
   el_duration new_video = NaN \<and>
   el_currentTime new_video = Fin 0 \<and>
   currentTime (state (handleTimeUpdate (mount (Some new_video)))) = Fin 0 \<and>
   \<not> isFinite (progress (state (handleTimeUpdate (mount (Some new_video))))) \<and>
   progress (state (handleTimeUpdate (mount (Some new_video)))) = NaN"
proof -
  have v: "videoRef (mount (Some new_video)) = Some new_video"
    by (simp add: model_defs Let_def)
  have d: "el_duration new_video = Fin 0 \<or> el_duration new_video = NaN"
    by (simp add: new_video_def)
  from handleTimeUpdate_zero_duration [OF v d] v show ?thesis
    by (simp add: new_video_def isFinite_def)
qed

subsection \<open>C9: one \<open>loadeddata\<close> listener\<close>

text \<open>
  C9. Whatever events a component receives after it is mounted on an element without
  listeners, at most one \<open>loadeddata\<close> listener is registered; it is the one the cleanup of
  the effect's last run will remove, that run was made for the current index and playlist,
  and the listener is the closure created last, so no listener of an earlier track is
  left. When the next event changes the track, the cleanup has emptied the list before the
  effect registers again.
\<close>

theorem one_loadeddata_listener:
  assumes "el_listeners v0 = []"
  shows "length (registered (run evs (mount (Some v0)))) \<le> 1 \<and>
         at_rest (run evs (mount (Some v0))) \<and>
         (\<forall>l \<in> set (registered (run evs (mount (Some v0)))).
            Suc (lid l) = next_lid (run evs (mount (Some v0)))) \<and>
         registered (run_cleanup (handle ev (run evs (mount (Some v0))))) = []"
proof -
  let ?c = "run evs (mount (Some v0))"
  have rest: "at_rest ?c" using assms by (intro at_rest_run at_rest_mount)
  then have reg: "registered ?c = (case effect_cleanup ?c of None \<Rightarrow> [] | Some l \<Rightarrow> [l])"
    by (simp add: at_rest_def)
  have "\<And>l. effect_cleanup (mount (Some v0)) = Some l \<Longrightarrow> Suc (lid l) = next_lid (mount (Some v0))"
    unfolding mount_def by (rule commit_newest_closure) simp_all
  then have new: "\<And>l. effect_cleanup ?c = Some l \<Longrightarrow> Suc (lid l) = next_lid ?c"
    by (rule run_newest_closure)
  have "registered (run_cleanup (handle ev ?c)) = []"
    by (rule run_cleanup_registered) (simp add: handle_effect_frame reg)
  with rest reg new show ?thesis by (auto split: option.splits)
qed

text \<open>After a selection of two files, play and two clicks on next.\<close>

theorem one_loadeddata_listener_witness:
  "el_listeners new_video = [] \<and>
   length (registered (run [ClickNext, ClickNext] playing_first_of_two)) \<le> 1 \<and>
   registered (run [ClickNext, ClickNext] playing_first_of_two)
     = [\<lparr>lid = 2, captured_isPlaying = False\<rparr>] \<and>
   next_lid (run [ClickNext, ClickNext] playing_first_of_two) = 3 \<and>
   registered (run_cleanup (handle ClickNext (run [ClickNext, ClickNext] playing_first_of_two)))
     = []"
proof -
  have c: "run [ClickNext, ClickNext] playing_first_of_two =
      run [FileChange (Some [a_mp4, b_mp4]), ClickPlayPause, ClickNext, ClickNext]
        (mount (Some new_video))"
    by (simp add: playing_first_of_two_def run_def)
  have n: "el_listeners new_video = []" by (simp add: new_video_def)
  have e: "registered (run [ClickNext, ClickNext] playing_first_of_two)
      = [\<lparr>lid = 2, captured_isPlaying = False\<rparr>]"
    "next_lid (run [ClickNext, ClickNext] playing_first_of_two) = 3"
    unfolding playing_first_of_two_eval
    by (simp_all add: model_defs handler_defs Let_def trunc_def registered_def)
  from one_loadeddata_listener [OF n,
      of "[FileChange (Some [a_mp4, b_mp4]), ClickPlayPause, ClickNext, ClickNext]" ClickNext]
  show ?thesis using n e by (simp add: c)
qed

subsection \<open>C10: what a selection of files leaves alone\<close>

text \<open>
  C10. \<open>handleFileUpload\<close>, the effect, and the two together leave \<open>duration\<close>,
  \<open>playbackRate\<close> and \<open>isMuted\<close> as they are; no event but \<open>loadedmetadata\<close> changes the
  stored \<open>duration\<close>; so after a selection of files the second part of the readout is
  still the duration stored before.
\<close>

theorem upload_keeps_duration_rate_mute:
  "duration (state (handleFileUpload files c)) = duration (state c) \<and>
   playbackRate (state (handleFileUpload files c)) = playbackRate (state c) \<and>
   isMuted (state (handleFileUpload files c)) = isMuted (state c) \<and>
   duration (state (track_effect c)) = duration (state c) \<and>
   playbackRate (state (track_effect c)) = playbackRate (state c) \<and>
   isMuted (state (track_effect c)) = isMuted (state c) \<and>
   duration (state (step (FileChange files) c)) = duration (state c) \<and>
   playbackRate (state (step (FileChange files) c)) = playbackRate (state c) \<and>
   isMuted (state (step (FileChange files) c)) = isMuted (state c) \<and>
   (ev \<noteq> LoadedMetadata \<longrightarrow> duration (state (step ev c)) = duration (state c)) \<and>
   snd (timeReadout (currentTime (state (step (FileChange files) c)))
                    (duration (state (step (FileChange files) c))))
     = formatTime (duration (state c))"
proof -
  have "duration (state (handleFileUpload files c)) = duration (state c)"
    "playbackRate (state (handleFileUpload files c)) = playbackRate (state c)"
    "isMuted (state (handleFileUpload files c)) = isMuted (state c)"
    by (simp_all add: handleFileUpload_def split: option.splits)
  then show ?thesis
    by (simp add: step_def commit_frame track_effect_frame handle_duration timeReadout_def)
qed

text \<open>With the duration 120 stored, a selection of a file leaves the readout at \<open>2:00\<close>.\<close>

theorem upload_keeps_duration_rate_mute_witness:
  "ClickNext \<noteq> LoadedMetadata \<and>
   duration (state two_minutes_loaded) = Fin 120 \<and>
   duration (state (step ClickNext two_minutes_loaded)) = Fin 120 \<and>
   duration (state (step (FileChange (Some [a_mp4])) two_minutes_loaded)) = Fin 120 \<and>
   snd (timeReadout (currentTime (state (step (FileChange (Some [a_mp4])) two_minutes_loaded)))
                    (duration (state (step (FileChange (Some [a_mp4])) two_minutes_loaded))))
     = Some ''2:00''"
proof -
  have d: "duration (state two_minutes_loaded) = Fin 120"
    by (simp add: example_defs model_defs handler_defs Let_def)
  have f: "formatTime (Fin 120) = Some ''2:00''"
    by (simp add: formatTime_def eval64 trunc_def decimal.simps digit_char_def)
  from upload_keeps_duration_rate_mute [of "Some [a_mp4]" two_minutes_loaded ClickNext]
  have a: "duration (state (step ClickNext two_minutes_loaded)) =
      duration (state two_minutes_loaded)"
    and b: "duration (state (step (FileChange (Some [a_mp4])) two_minutes_loaded)) =
      duration (state two_minutes_loaded)"
    by blast+
  show ?thesis unfolding a b d by (simp add: timeReadout_def f)
qed

end
